theory Spec2Isabelle
  imports Complex_Main "HOL-Library.Multiset"
begin

section \<open>The line chart of grpc-web-devtools: data model\<close>

text \<open>
  The development embeds \<^verbatim>\<open>src/lineChart.tsx\<close>: the \<^verbatim>\<open>chartData\<close> memo (the
  normalizer), the body of the chart effect up to \<^verbatim>\<open>chart.setOption\<close> (the builder) and
  the final conditional of the component (the placeholder).

  Numbers. A JavaScript number that holds a parsed reading is a \<open>jsnum\<close>; the code never
  computes with it, it only stores it and prints it. A timestamp is documented as epoch
  milliseconds and is modelled as an \<open>int\<close>: on such numbers the comparator
  \<^verbatim>\<open>a.timestamp - b.timestamp\<close>, the key comparison of \<^verbatim>\<open>Map\<close> and \<^verbatim>\<open>Set\<close> and
  \<^verbatim>\<open>===\<close> are exact, so nothing of the floating-point format is involved.
\<close>

datatype jsnum = Num real | PosInfinity | NegInfinity | NaN

text \<open>The object under a metric key: \<^verbatim>\<open>{ value: string, timestamp: number, status: string }\<close>.\<close>

record metricReading =
  rvalue :: string
  rtimestamp :: int
  rstatus :: string

text \<open>
  What a key of a \<^verbatim>\<open>DataPoint\<close> can hold: a reading object or a bare number. \<open>Null\<close> is
  there because the guard of the normalizer tests it (\<^verbatim>\<open>typeof null\<close> is \<^verbatim>\<open>"object"\<close>).
\<close>

datatype fieldValue = Reading metricReading | Number jsnum | Null

text \<open>
  A \<^verbatim>\<open>DataPoint\<close> is the list of its own enumerable properties in the order in which
  \<^verbatim>\<open>Object.entries\<close> and the rest pattern enumerate them; the key \<^verbatim>\<open>category\<close> is one
  of them. The keys of an object are pairwise different.
\<close>

type_synonym dataPoint = "(string \<times> fieldValue) list"

text \<open>An element of a metric's array: \<^verbatim>\<open>{ timestamp: number, value: number, status: string }\<close>.\<close>

record sample =
  timestamp :: int
  val :: jsnum
  status :: string

datatype error = TypeError

subsection \<open>\<^verbatim>\<open>Map\<close>, \<^verbatim>\<open>Set\<close> and \<^verbatim>\<open>Array\<close> of the host language\<close>

text \<open>
  A \<^verbatim>\<open>Map\<close> iterates in insertion order, and \<^verbatim>\<open>set\<close> on a key that is present keeps
  the key's place: an association list, searched from the front.
\<close>

type_synonym ('k, 'v) jsmap = "('k \<times> 'v) list"

fun Map_get :: "('k, 'v) jsmap \<Rightarrow> 'k \<Rightarrow> 'v option" where
  "Map_get [] k = None"
| "Map_get ((a, b) # ps) k = (if a = k then Some b else Map_get ps k)"

definition Map_has :: "('k, 'v) jsmap \<Rightarrow> 'k \<Rightarrow> bool" where
  "Map_has m k = (Map_get m k \<noteq> None)"

fun Map_set :: "('k, 'v) jsmap \<Rightarrow> 'k \<Rightarrow> 'v \<Rightarrow> ('k, 'v) jsmap" where
  "Map_set [] k v = [(k, v)]"
| "Map_set ((a, b) # ps) k v = (if a = k then (k, v) # ps else (a, b) # Map_set ps k v)"

definition Map_keys :: "('k, 'v) jsmap \<Rightarrow> 'k list" where
  "Map_keys m = map fst m"

text \<open>\<^verbatim>\<open>new Map(entries)\<close>: the entries are set one after the other, a later one overwrites.\<close>

definition new_Map :: "('k \<times> 'v) list \<Rightarrow> ('k, 'v) jsmap" where
  "new_Map entries = foldl (\<lambda>m (k, v). Map_set m k v) [] entries"

text \<open>A \<^verbatim>\<open>Set\<close> in insertion order; \<^verbatim>\<open>Array.from\<close> reads it off as it is.\<close>

definition Set_add :: "'a list \<Rightarrow> 'a \<Rightarrow> 'a list" where
  "Set_add s x = (if x \<in> set s then s else s @ [x])"

text \<open>\<^verbatim>\<open>arr[i]\<close>: \<^verbatim>\<open>undefined\<close> out of range.\<close>

definition index :: "'a list \<Rightarrow> nat \<Rightarrow> 'a option" where
  "index xs i = (if i < length xs then Some (xs ! i) else None)"

text \<open>\<^verbatim>\<open>arr.find(p)\<close>: the first element that satisfies \<open>p\<close>.\<close>

fun find_first :: "('a \<Rightarrow> bool) \<Rightarrow> 'a list \<Rightarrow> 'a option" where
  "find_first p [] = None"
| "find_first p (x # xs) = (if p x then Some x else find_first p xs)"

text \<open>
  \<^verbatim>\<open>arr.sort(cmp)\<close> is a stable sort: an element goes before the first one that the
  comparator does not put before it.
\<close>

fun insert_cmp :: "('a \<Rightarrow> 'a \<Rightarrow> int) \<Rightarrow> 'a \<Rightarrow> 'a list \<Rightarrow> 'a list" where
  "insert_cmp cmp x [] = [x]"
| "insert_cmp cmp x (y # ys) = (if cmp x y \<le> 0 then x # y # ys else y # insert_cmp cmp x ys)"

definition js_sort :: "('a \<Rightarrow> 'a \<Rightarrow> int) \<Rightarrow> 'a list \<Rightarrow> 'a list" where
  "js_sort cmp xs = foldr (insert_cmp cmp) xs []"

text \<open>\<^verbatim>\<open>forEach\<close> with a body that can throw: the first exception ends the loop.\<close>

fun forEach :: "('s \<Rightarrow> 'a \<Rightarrow> error + 's) \<Rightarrow> 'a list \<Rightarrow> 's \<Rightarrow> error + 's" where
  "forEach f [] s = Inr s"
| "forEach f (x # xs) s = (case f s x of Inl e \<Rightarrow> Inl e | Inr s' \<Rightarrow> forEach f xs s')"

section \<open>The normalizer: \<^verbatim>\<open>chartData\<close>\<close>

type_synonym metricsMap = "(string, sample list) jsmap"

text \<open>\<^verbatim>\<open>const { category, ...metrics } = item\<close>\<close>

definition metrics :: "dataPoint \<Rightarrow> dataPoint" where
  "metrics item = filter (\<lambda>(k, v). k \<noteq> ''category'') item"

text \<open>
  The body of the inner \<^verbatim>\<open>forEach\<close>. \<open>parseFloat\<close> is the built-in of the host, a
  parameter here. The \<^verbatim>\<open>!\<close> after \<^verbatim>\<open>metricsMap.get(metricName)\<close> checks nothing at
  run time: \<^verbatim>\<open>push\<close> on \<^verbatim>\<open>undefined\<close> throws a \<^verbatim>\<open>TypeError\<close>.
\<close>

definition add_metric ::
  "(string \<Rightarrow> jsnum) \<Rightarrow> metricsMap \<Rightarrow> string \<times> fieldValue \<Rightarrow> error + metricsMap" where
  "add_metric parseFloat metricsMap entry =
     (case entry of
        (metricName, Reading metricData) \<Rightarrow>
          (let m1 = (if \<not> Map_has metricsMap metricName
                     then Map_set metricsMap metricName [] else metricsMap)
           in case Map_get m1 metricName of
                None \<Rightarrow> Inl TypeError
              | Some arr \<Rightarrow>
                  Inr (Map_set m1 metricName
                        (arr @ [\<lparr>timestamp = rtimestamp metricData,
                                 val = parseFloat (rvalue metricData),
                                 status = rstatus metricData\<rparr>])))
      | (metricName, _) \<Rightarrow> Inr metricsMap)"

definition add_item ::
  "(string \<Rightarrow> jsnum) \<Rightarrow> metricsMap \<Rightarrow> dataPoint \<Rightarrow> error + metricsMap" where
  "add_item parseFloat metricsMap item = forEach (add_metric parseFloat) (metrics item) metricsMap"

text \<open>\<^verbatim>\<open>values.sort((a, b) => a.timestamp - b.timestamp)\<close> for every entry of the map.\<close>

definition by_timestamp :: "sample \<Rightarrow> sample \<Rightarrow> int" where
  "by_timestamp a b = timestamp a - timestamp b"

definition sort_metrics :: "metricsMap \<Rightarrow> metricsMap" where
  "sort_metrics m = map (\<lambda>(k, values). (k, js_sort by_timestamp values)) m"

text \<open>The memo. An absent \<^verbatim>\<open>data\<close> is \<open>None\<close>; the result \<^verbatim>\<open>null\<close> is \<open>None\<close>.\<close>

definition chartData ::
  "(string \<Rightarrow> jsnum) \<Rightarrow> dataPoint list option \<Rightarrow> error + metricsMap option" where
  "chartData parseFloat data =
     (case data of
        None \<Rightarrow> Inr None
      | Some ds \<Rightarrow>
          if length ds = 0 then Inr None
          else (case forEach (add_item parseFloat) ds [] of
                  Inl e \<Rightarrow> Inl e
                | Inr metricsMap \<Rightarrow> Inr (Some (sort_metrics metricsMap))))"

section \<open>The builder: the chart effect\<close>

text \<open>The unified timeline.\<close>

definition allTimestamps :: "metricsMap \<Rightarrow> int list" where
  "allTimestamps chartData_m =
     foldl (\<lambda>s (k, values). foldl (\<lambda>s item. Set_add s (timestamp item)) s values) [] chartData_m"

definition sortedTimestamps :: "metricsMap \<Rightarrow> int list" where
  "sortedTimestamps chartData_m = js_sort (\<lambda>a b. a - b) (allTimestamps chartData_m)"

definition metricNames :: "metricsMap \<Rightarrow> string list" where
  "metricNames chartData_m = Map_keys chartData_m"

text \<open>An entry of a series' \<^verbatim>\<open>data\<close>: a number, or \<^verbatim>\<open>null\<close> for a gap.\<close>

datatype dataEntry = Point jsnum | Gap

definition dataMap :: "sample list \<Rightarrow> (int, sample) jsmap" where
  "dataMap metricData = new_Map (map (\<lambda>item. (timestamp item, item)) metricData)"

text \<open>A sample is an object, hence truthy: the conditional only tests its presence.\<close>

definition series_data :: "int list \<Rightarrow> sample list \<Rightarrow> dataEntry list" where
  "series_data ts metricData =
     map (\<lambda>t. case Map_get (dataMap metricData) t of
                 Some dataPoint \<Rightarrow> Point (val dataPoint)
               | None \<Rightarrow> Gap) ts"

text \<open>
  The color callback. \<^verbatim>\<open>statusColors[k]\<close> is a property read on an object literal: a key
  that the literal does not own is looked up in \<^verbatim>\<open>Object.prototype\<close>, whose members
  are functions or objects and thus truthy, so that \<^verbatim>\<open>||\<close> does not replace them.
\<close>

datatype colorResult = Color string | Inherited string

definition statusColors :: "(string \<times> string) list" where
  "statusColors = [(''GOOD'', ''#52c41a''), (''WARNING'', ''#faad14''), (''ERROR'', ''#f5222d'')]"

definition Object_prototype :: "string list" where
  "Object_prototype =
     [''constructor'', ''hasOwnProperty'', ''isPrototypeOf'', ''propertyIsEnumerable'',
      ''toLocaleString'', ''toString'', ''valueOf'', ''__proto__'',
      ''__defineGetter__'', ''__defineSetter__'', ''__lookupGetter__'', ''__lookupSetter__'']"

definition status_color :: "string \<Rightarrow> colorResult" where
  "status_color st =
     (case Map_get statusColors st of
        Some c \<Rightarrow> Color c
      | None \<Rightarrow> if st \<in> set Object_prototype then Inherited st else Color ''#1890ff'')"

definition itemStyle_color :: "sample list \<Rightarrow> nat \<Rightarrow> colorResult" where
  "itemStyle_color metricData dataIndex =
     (case index metricData dataIndex of
        None \<Rightarrow> Color ''#1890ff''
      | Some dataPoint \<Rightarrow> status_color (status dataPoint))"

text \<open>One element of \<^verbatim>\<open>series\<close>; the constant fields (type, symbol, line width) are left out.\<close>

record series =
  name :: string
  data :: "dataEntry list"
  color :: "nat \<Rightarrow> colorResult"

definition add_series ::
  "metricsMap \<Rightarrow> int list \<Rightarrow> series list \<Rightarrow> string \<Rightarrow> error + series list" where
  "add_series chartData_m ts ser metricName =
     (case Map_get chartData_m metricName of
        None \<Rightarrow> Inl TypeError
      | Some metricData \<Rightarrow>
          Inr (ser @ [\<lparr>name = metricName,
                       data = series_data ts metricData,
                       color = itemStyle_color metricData\<rparr>]))"

definition build_series :: "metricsMap \<Rightarrow> error + series list" where
  "build_series chartData_m =
     forEach (add_series chartData_m (sortedTimestamps chartData_m)) (metricNames chartData_m) []"

text \<open>
  The tooltip. What the rendering library hands to the formatter: an array of items (one
  per series, under the axis trigger) or one item. The functions of the host that turn a
  date and a number into text are the fields of \<open>host\<close>.
\<close>

record param =
  seriesName :: string
  marker :: string
  dataIndex :: nat

datatype formatterArg = ParamArray "param list" | ParamItem param

record host =
  dateTimeString :: "int \<Rightarrow> string"
  axisString :: "int \<Rightarrow> string"
  numberString :: "jsnum \<Rightarrow> string"

text \<open>\<^verbatim>\<open>new Date(undefined)\<close> is an invalid date, which prints as \<^verbatim>\<open>Invalid Date\<close>.\<close>

definition dateStr :: "host \<Rightarrow> int option \<Rightarrow> string" where
  "dateStr h t = (case t of None \<Rightarrow> ''Invalid Date'' | Some ms \<Rightarrow> dateTimeString h ms)"

definition tooltip_line :: "host \<Rightarrow> param \<Rightarrow> sample \<Rightarrow> string" where
  "tooltip_line h p dataPoint =
     marker p @ '' '' @ seriesName p @ '': '' @ numberString h (val dataPoint)
       @ '' ('' @ status dataPoint @ '')<br/>''"

definition add_line ::
  "host \<Rightarrow> metricsMap \<Rightarrow> int option \<Rightarrow> string \<Rightarrow> param \<Rightarrow> error + string" where
  "add_line h chartData_m t result p =
     (case Map_get chartData_m (seriesName p) of
        None \<Rightarrow> Inl TypeError
      | Some metricData \<Rightarrow>
          (case find_first (\<lambda>item. Some (timestamp item) = t) metricData of
             Some dataPoint \<Rightarrow> Inr (result @ tooltip_line h p dataPoint)
           | None \<Rightarrow> Inr result))"

definition formatter :: "host \<Rightarrow> metricsMap \<Rightarrow> formatterArg \<Rightarrow> error + string" where
  "formatter h chartData_m arg =
     (case arg of
        ParamItem p \<Rightarrow> Inr ''''
      | ParamArray [] \<Rightarrow> Inr ''''
      | ParamArray (p0 # ps) \<Rightarrow>
          (let t = index (sortedTimestamps chartData_m) (dataIndex p0)
           in forEach (add_line h chartData_m t) (p0 # ps) (dateStr h t @ ''<br/>'')))"

text \<open>The option object; its constant fields (grid, axis types, label style) are left out.\<close>

record chartOption =
  tooltip_formatter :: "formatterArg \<Rightarrow> error + string"
  legend_data :: "string list"
  xAxis_data :: "string list"
  series_list :: "series list"

definition build_option :: "host \<Rightarrow> metricsMap \<Rightarrow> error + chartOption" where
  "build_option h chartData_m =
     (case build_series chartData_m of
        Inl e \<Rightarrow> Inl e
      | Inr ser \<Rightarrow>
          Inr \<lparr>tooltip_formatter = formatter h chartData_m,
               legend_data = metricNames chartData_m,
               xAxis_data = map (axisString h) (sortedTimestamps chartData_m),
               series_list = ser\<rparr>)"

section \<open>The component\<close>

text \<open>
  The chart instance is the collaborator that receives the option objects: it is modelled
  by the list of the options it was given. \<open>chartInstanceRef\<close> holds it once it is created.
  \<open>chartRef_current\<close> tells whether the \<^verbatim>\<open>div\<close> of the chart is mounted.
\<close>

type_synonym chartInstanceRef = "chartOption list option"

definition chart_effect ::
  "host \<Rightarrow> bool \<Rightarrow> metricsMap option \<Rightarrow> chartInstanceRef
     \<Rightarrow> error + (chartInstanceRef \<times> chartOption option)" where
  "chart_effect h chartRef_current cd inst =
     (case cd of
        None \<Rightarrow> Inr (inst, None)
      | Some chartData_m \<Rightarrow>
          if \<not> chartRef_current then Inr (inst, None)
          else
            (let chart = (case inst of None \<Rightarrow> [] | Some opts \<Rightarrow> opts)
             in case build_option h chartData_m of
                  Inl e \<Rightarrow> Inl e
                | Inr opt \<Rightarrow> Inr (Some (chart @ [opt]), Some opt)))"

datatype view = NoDataAvailable | ChartDiv

definition LineChart_view :: "metricsMap option \<Rightarrow> view" where
  "LineChart_view cd =
     (case cd of
        None \<Rightarrow> NoDataAvailable
      | Some chartData_m \<Rightarrow> if length chartData_m = 0 then NoDataAvailable else ChartDiv)"

section \<open>The memo on a store\<close>

text \<open>
  The definitions above pass arrays by value. The memo, however, works on objects: it
  creates a \<^verbatim>\<open>Map\<close> and one array per metric, \<^verbatim>\<open>push\<close> and \<^verbatim>\<open>sort\<close> write into an array
  in place, and what the memo returns is a reference. To compare two invocations of the
  memo, the second of which runs on the store that the first has left, the same lines are
  embedded once more on an explicit store: \<^verbatim>\<open>Map\<close> objects and arrays live at addresses, a
  \<^verbatim>\<open>Map\<close> holds the addresses of its arrays, and \<open>next_addr\<close> is the next unused address.
  The input is passed by value: the code has no assignment to \<^verbatim>\<open>data\<close>, to an item or to
  a reading. A pushed sample is a new object that nothing writes to afterwards.
\<close>

type_synonym addr = nat

record store =
  array_at :: "addr \<Rightarrow> sample list option"
  map_at :: "addr \<Rightarrow> (string, addr) jsmap option"
  next_addr :: addr

text \<open>\<^verbatim>\<open>[]\<close> and \<^verbatim>\<open>new Map()\<close>: a new object at the next unused address.\<close>

definition new_Array :: "store \<Rightarrow> store \<times> addr" where
  "new_Array s =
     (s\<lparr>array_at := (array_at s)(next_addr s \<mapsto> []), next_addr := Suc (next_addr s)\<rparr>,
      next_addr s)"

definition new_Map_object :: "store \<Rightarrow> store \<times> addr" where
  "new_Map_object s =
     (s\<lparr>map_at := (map_at s)(next_addr s \<mapsto> []), next_addr := Suc (next_addr s)\<rparr>,
      next_addr s)"

text \<open>\<^verbatim>\<open>arr.push(x)\<close> and \<^verbatim>\<open>arr.sort(cmp)\<close> write into the array at the address.\<close>

definition Array_push :: "store \<Rightarrow> addr \<Rightarrow> sample \<Rightarrow> error + store" where
  "Array_push s a x =
     (case array_at s a of
        None \<Rightarrow> Inl TypeError
      | Some xs \<Rightarrow> Inr (s\<lparr>array_at := (array_at s)(a \<mapsto> xs @ [x])\<rparr>))"

definition Array_sort :: "store \<Rightarrow> addr \<Rightarrow> error + store" where
  "Array_sort s a =
     (case array_at s a of
        None \<Rightarrow> Inl TypeError
      | Some xs \<Rightarrow> Inr (s\<lparr>array_at := (array_at s)(a \<mapsto> js_sort by_timestamp xs)\<rparr>))"

text \<open>The body of the inner \<^verbatim>\<open>forEach\<close>; \<open>metricsMap\<close> is the address of the \<^verbatim>\<open>Map\<close>.\<close>

definition add_metric_st ::
  "(string \<Rightarrow> jsnum) \<Rightarrow> addr \<Rightarrow> store \<Rightarrow> string \<times> fieldValue \<Rightarrow> error + store" where
  "add_metric_st parseFloat metricsMap s entry =
     (case entry of
        (metricName, Reading metricData) \<Rightarrow>
          (case map_at s metricsMap of
             None \<Rightarrow> Inl TypeError
           | Some m \<Rightarrow>
               (let s1 = (if \<not> Map_has m metricName
                          then (case new_Array s of
                                  (s', arr) \<Rightarrow>
                                    s'\<lparr>map_at := (map_at s')(metricsMap \<mapsto> Map_set m metricName arr)\<rparr>)
                          else s)
                in case map_at s1 metricsMap of
                     None \<Rightarrow> Inl TypeError
                   | Some m1 \<Rightarrow>
                       (case Map_get m1 metricName of
                          None \<Rightarrow> Inl TypeError
                        | Some arr \<Rightarrow>
                            Array_push s1 arr
                              \<lparr>timestamp = rtimestamp metricData,
                               val = parseFloat (rvalue metricData),
                               status = rstatus metricData\<rparr>)))
      | (metricName, _) \<Rightarrow> Inr s)"

definition add_item_st ::
  "(string \<Rightarrow> jsnum) \<Rightarrow> addr \<Rightarrow> store \<Rightarrow> dataPoint \<Rightarrow> error + store" where
  "add_item_st parseFloat metricsMap s item =
     forEach (add_metric_st parseFloat metricsMap) (metrics item) s"

definition sort_metrics_st :: "addr \<Rightarrow> store \<Rightarrow> error + store" where
  "sort_metrics_st metricsMap s =
     (case map_at s metricsMap of
        None \<Rightarrow> Inl TypeError
      | Some m \<Rightarrow> forEach (\<lambda>s (k, values). Array_sort s values) m s)"

text \<open>The memo: it returns the store it leaves and \<^verbatim>\<open>null\<close> or the address of the new \<^verbatim>\<open>Map\<close>.\<close>

definition chartData_st ::
  "(string \<Rightarrow> jsnum) \<Rightarrow> dataPoint list option \<Rightarrow> store \<Rightarrow> error + (store \<times> addr option)" where
  "chartData_st parseFloat data_in s =
     (case data_in of
        None \<Rightarrow> Inr (s, None)
      | Some ds \<Rightarrow>
          if length ds = 0 then Inr (s, None)
          else (case new_Map_object s of
                  (s0, metricsMap) \<Rightarrow>
                    (case forEach (add_item_st parseFloat metricsMap) ds s0 of
                       Inl e \<Rightarrow> Inl e
                     | Inr s1 \<Rightarrow>
                         (case sort_metrics_st metricsMap s1 of
                            Inl e \<Rightarrow> Inl e
                          | Inr s2 \<Rightarrow> Inr (s2, Some metricsMap)))))"

text \<open>
  What a reader of the reference finds in a store: the entries of the \<^verbatim>\<open>Map\<close> in their
  order, each with the content of its array. The effect only reads the \<^verbatim>\<open>Map\<close> and its
  arrays; the objects that it creates itself (the set of timestamps, the series, the
  lookup maps) are its own. So the effect on a store is the effect on what it reads there.
\<close>

fun read_entries :: "store \<Rightarrow> (string, addr) jsmap \<Rightarrow> error + metricsMap" where
  "read_entries s [] = Inr []"
| "read_entries s ((k, a) # ps) =
     (case array_at s a of
        None \<Rightarrow> Inl TypeError
      | Some xs \<Rightarrow>
          (case read_entries s ps of
             Inl e \<Rightarrow> Inl e
           | Inr m \<Rightarrow> Inr ((k, xs) # m)))"

definition read_chartData :: "store \<Rightarrow> addr option \<Rightarrow> error + metricsMap option" where
  "read_chartData s r =
     (case r of
        None \<Rightarrow> Inr None
      | Some metricsMap \<Rightarrow>
          (case map_at s metricsMap of
             None \<Rightarrow> Inl TypeError
           | Some m \<Rightarrow>
               (case read_entries s m of
                  Inl e \<Rightarrow> Inl e
                | Inr chartData_m \<Rightarrow> Inr (Some chartData_m))))"

definition chart_effect_st ::
  "host \<Rightarrow> bool \<Rightarrow> store \<Rightarrow> addr option \<Rightarrow> chartInstanceRef
     \<Rightarrow> error + (chartInstanceRef \<times> chartOption option)" where
  "chart_effect_st h chartRef_current s r inst =
     (case read_chartData s r of
        Inl e \<Rightarrow> Inl e
      | Inr cd \<Rightarrow> chart_effect h chartRef_current cd inst)"

section \<open>Vocabulary of the statements\<close>

text \<open>
  The sample that the normalizer pushes for a reading, the readings that the input holds
  for a metric name in the order in which the two loops of the normalizer meet them
  (the arrival order), and the array that a mapping holds for a name.
\<close>

definition to_sample :: "(string \<Rightarrow> jsnum) \<Rightarrow> metricReading \<Rightarrow> sample" where
  "to_sample parseFloat r =
     \<lparr>timestamp = rtimestamp r, val = parseFloat (rvalue r), status = rstatus r\<rparr>"

fun reading_at :: "string \<Rightarrow> string \<times> fieldValue \<Rightarrow> metricReading list" where
  "reading_at n (k, Reading r) = (if k = n then [r] else [])"
| "reading_at n (k, Number x) = []"
| "reading_at n (k, Null) = []"

definition readings_of :: "dataPoint list \<Rightarrow> string \<Rightarrow> metricReading list" where
  "readings_of ds n = concat (map (\<lambda>item. concat (map (reading_at n) (metrics item))) ds)"

definition series_for :: "metricsMap \<Rightarrow> string \<Rightarrow> sample list" where
  "series_for m n = (case Map_get m n of None \<Rightarrow> [] | Some values \<Rightarrow> values)"

text \<open>How one run of the loops changes the arrays of the map: \<open>new n\<close> is appended under \<open>n\<close>.\<close>

definition grows :: "metricsMap \<Rightarrow> metricsMap \<Rightarrow> (string \<Rightarrow> sample list) \<Rightarrow> bool" where
  "grows m m' new =
     (\<forall>n. Map_get m' n =
        (case Map_get m n of
           None \<Rightarrow> if new n = [] then None else Some (new n)
         | Some old \<Rightarrow> Some (old @ new n)))"

text \<open>
  A store represents a mapping at an address: the \<^verbatim>\<open>Map\<close> there has the keys of the mapping,
  each key has an array of its own, created at or after \<open>base\<close>, and the array holds what
  the mapping holds for the key. A run leaves the objects below \<open>base\<close> as they were.
\<close>

definition represents :: "addr \<Rightarrow> store \<Rightarrow> addr \<Rightarrow> metricsMap \<Rightarrow> bool" where
  "represents base s mp m =
     (\<exists>ma. map_at s mp = Some ma
        \<and> base \<le> mp \<and> mp < next_addr s
        \<and> map fst ma = map fst m
        \<and> distinct (map fst ma)
        \<and> distinct (map snd ma)
        \<and> list_all (\<lambda>(k, a). base \<le> a \<and> a < next_addr s
                              \<and> (\<exists>xs. array_at s a = Some xs \<and> Map_get m k = Some xs)) ma)"

definition unchanged_below :: "addr \<Rightarrow> store \<Rightarrow> store \<Rightarrow> bool" where
  "unchanged_below base s s' =
     (next_addr s \<le> next_addr s'
      \<and> (\<forall>a < base. array_at s' a = array_at s a \<and> map_at s' a = map_at s a))"

definition empty_store :: store where
  "empty_store = \<lparr>array_at = (\<lambda>a. None), map_at = (\<lambda>a. None), next_addr = 0\<rparr>"

section \<open>Example inputs\<close>

text \<open>
  Three records with the metrics \<^verbatim>\<open>cpu\<close> and \<^verbatim>\<open>mem\<close>, an unparseable reading and a
  bare number; the values of \<^verbatim>\<open>parseFloat\<close> and of the formatting functions on them; the
  mapping that the normalizer returns for them.
\<close>

definition example_parseFloat :: "string \<Rightarrow> jsnum" where
  "example_parseFloat s =
     (if s = ''10'' then Num 10 else if s = ''20'' then Num 20
      else if s = ''5'' then Num 5 else if s = ''7'' then Num 7 else NaN)"

definition example_host :: host where
  "example_host =
     \<lparr>dateTimeString = (\<lambda>t. if t = 1000 then ''1970/01/01 00:00:01''
                              else if t = 2000 then ''1970/01/01 00:00:02''
                              else ''1970/01/01 00:00:03''),
      axisString = (\<lambda>t. ''01/01 00:00''),
      numberString = (\<lambda>x. if x = Num 10 then ''10'' else if x = Num 20 then ''20''
                            else if x = Num 5 then ''5'' else if x = Num 7 then ''7''
                            else ''NaN'')\<rparr>"

definition example_input :: "dataPoint list" where
  "example_input =
     [[(''category'', Number (Num 1)),
       (''cpu'', Reading \<lparr>rvalue = ''10'', rtimestamp = 1000, rstatus = ''GOOD''\<rparr>)],
      [(''category'', Number (Num 2)),
       (''cpu'', Reading \<lparr>rvalue = ''20'', rtimestamp = 2000, rstatus = ''GOOD''\<rparr>),
       (''mem'', Reading \<lparr>rvalue = ''5'', rtimestamp = 2000, rstatus = ''WARNING''\<rparr>)],
      [(''category'', Number (Num 3)),
       (''cpu'', Reading \<lparr>rvalue = ''abc'', rtimestamp = 3000, rstatus = ''GOOD''\<rparr>),
       (''mem'', Reading \<lparr>rvalue = ''7'', rtimestamp = 3000, rstatus = ''ERROR''\<rparr>),
       (''load'', Number (Num 3))]]"

definition example_metrics :: metricsMap where
  "example_metrics =
     [(''cpu'', [\<lparr>timestamp = 1000, val = Num 10, status = ''GOOD''\<rparr>,
                 \<lparr>timestamp = 2000, val = Num 20, status = ''GOOD''\<rparr>,
                 \<lparr>timestamp = 3000, val = NaN, status = ''GOOD''\<rparr>]),
      (''mem'', [\<lparr>timestamp = 2000, val = Num 5, status = ''WARNING''\<rparr>,
                 \<lparr>timestamp = 3000, val = Num 7, status = ''ERROR''\<rparr>])]"

text \<open>
  Three records of one metric that arrive out of order, two of them with the timestamp 1000,
  and the mapping that the normalizer returns for them.
\<close>

definition duplicate_input :: "dataPoint list" where
  "duplicate_input =
     [[(''category'', Number (Num 1)),
       (''cpu'', Reading \<lparr>rvalue = ''5'', rtimestamp = 2000, rstatus = ''GOOD''\<rparr>)],
      [(''category'', Number (Num 2)),
       (''cpu'', Reading \<lparr>rvalue = ''10'', rtimestamp = 1000, rstatus = ''GOOD''\<rparr>)],
      [(''category'', Number (Num 3)),
       (''cpu'', Reading \<lparr>rvalue = ''20'', rtimestamp = 1000, rstatus = ''ERROR''\<rparr>)]]"

definition duplicate_series :: "sample list" where
  "duplicate_series =
     [\<lparr>timestamp = 1000, val = Num 10, status = ''GOOD''\<rparr>,
      \<lparr>timestamp = 1000, val = Num 20, status = ''ERROR''\<rparr>,
      \<lparr>timestamp = 2000, val = Num 5, status = ''GOOD''\<rparr>]"

definition duplicate_metrics :: metricsMap where
  "duplicate_metrics = [(''cpu'', duplicate_series)]"

section \<open>Facts about the host containers\<close>

lemma Map_get_map_of: "Map_get m k = map_of m k"
  by (induction m) auto

lemma Map_get_None_iff: "Map_get m k = None \<longleftrightarrow> k \<notin> set (map fst m)"
  by (simp add: Map_get_map_of map_of_eq_None_iff)

lemma Map_get_Map_set: "Map_get (Map_set m k v) k' = (if k' = k then Some v else Map_get m k')"
  by (induction m) auto

lemma keys_Map_set:
  "map fst (Map_set m k v) = (if k \<in> set (map fst m) then map fst m else map fst m @ [k])"
  by (induction m) force+

lemma distinct_Map_set: "distinct (map fst m) \<Longrightarrow> distinct (map fst (Map_set m k v))"
  by (simp add: keys_Map_set)

lemma Map_get_SomeD: "Map_get m k = Some v \<Longrightarrow> (k, v) \<in> set m"
  by (simp add: Map_get_map_of map_of_SomeD)

lemma insert_cmp_insort:
  "insert_cmp (\<lambda>a b. f a - f b) x ys = insort_key f x ys"
  by (induction ys) auto

lemma js_sort_sort_key: "js_sort (\<lambda>a b. f a - f b) xs = sort_key f xs"
  by (induction xs) (auto simp: js_sort_def insert_cmp_insort)

lemma js_sort_by_timestamp: "js_sort by_timestamp xs = sort_key timestamp xs"
  using js_sort_sort_key [of timestamp xs] by (simp add: by_timestamp_def [abs_def])

lemma js_sort_int: "js_sort (\<lambda>a b. a - b) xs = sort (xs :: int list)"
  using js_sort_sort_key [of "\<lambda>x. x" xs] by simp

lemma find_first_filter:
  "find_first p xs = (case filter p xs of [] \<Rightarrow> None | y # ys \<Rightarrow> Some y)"
  by (induction xs) auto

lemma new_Map_snoc: "new_Map (es @ [(k, v)]) = Map_set (new_Map es) k v"
  by (simp add: new_Map_def)

lemma Map_get_dataMap:
  "Map_get (dataMap xs) t =
     (if filter (\<lambda>s. timestamp s = t) xs = [] then None
      else Some (last (filter (\<lambda>s. timestamp s = t) xs)))"
proof (induction xs rule: rev_induct)
  case Nil
  show ?case by (simp add: dataMap_def new_Map_def)
next
  case (snoc x xs)
  have "dataMap (xs @ [x]) = Map_set (dataMap xs) (timestamp x) x"
    by (simp add: dataMap_def new_Map_snoc)
  with snoc show ?case by (simp add: Map_get_Map_set)
qed

lemma set_foldl_Set_add: "set (foldl Set_add s xs) = set s \<union> set xs"
  by (induction xs arbitrary: s) (auto simp: Set_add_def)

lemma distinct_foldl_Set_add: "distinct s \<Longrightarrow> distinct (foldl Set_add s xs)"
  by (induction xs arbitrary: s) (auto simp: Set_add_def)

lemma allTimestamps_flat:
  "foldl (\<lambda>s (k, values). foldl (\<lambda>s item. Set_add s (timestamp item)) s values) s0 (m :: metricsMap)
     = foldl Set_add s0 (map timestamp (concat (map snd m)))"
proof (induction m arbitrary: s0)
  case Nil
  show ?case by simp
next
  case (Cons p m)
  have inner: "foldl (\<lambda>s item. Set_add s (timestamp item)) s vs = foldl Set_add s (map timestamp vs)"
    for s and vs :: "sample list"
    by (induction vs arbitrary: s) auto
  show ?case using Cons by (cases p) (simp add: inner)
qed

lemma allTimestamps_eq:
  "allTimestamps m = foldl Set_add [] (map timestamp (concat (map snd m)))"
  by (simp add: allTimestamps_def allTimestamps_flat)

lemma set_sortedTimestamps:
  "set (sortedTimestamps m) = timestamp ` (\<Union>p \<in> set m. set (snd p))"
  by (auto simp: sortedTimestamps_def js_sort_int allTimestamps_eq set_foldl_Set_add)

lemma distinct_sortedTimestamps: "distinct (sortedTimestamps m)"
  by (simp add: sortedTimestamps_def js_sort_int allTimestamps_eq distinct_foldl_Set_add)

lemma sorted_sortedTimestamps: "sorted (sortedTimestamps m)"
  by (simp add: sortedTimestamps_def js_sort_int)

lemma length_foldl_Set_add: "length (foldl Set_add s xs) \<le> length s + length xs"
proof (induction xs arbitrary: s)
  case Nil
  show ?case by simp
next
  case (Cons x xs)
  have "length (foldl Set_add (Set_add s x) xs) \<le> length (Set_add s x) + length xs"
    by (rule Cons.IH)
  also have "length (Set_add s x) \<le> length s + 1"
    by (simp add: Set_add_def)
  finally show ?case by simp
qed

lemma length_concat_snd:
  "length (concat (map snd m)) = sum_list (map (\<lambda>p. length (snd p)) m)"
  by (induction m) auto

lemma length_sortedTimestamps_le:
  "length (sortedTimestamps m) \<le> sum_list (map (\<lambda>p. length (snd p)) m)"
proof -
  have "length (sortedTimestamps m) = length (allTimestamps m)"
    by (simp add: sortedTimestamps_def js_sort_int)
  also have "\<dots> \<le> length (map timestamp (concat (map snd m)))"
    using length_foldl_Set_add [of "[]" "map timestamp (concat (map snd m))"]
    by (simp add: allTimestamps_eq)
  finally show ?thesis by (simp add: length_concat_snd)
qed

section \<open>Facts about the normalizer\<close>

lemma grows_refl: "grows m m (\<lambda>n. [])"
  by (simp add: grows_def split: option.splits)

lemma grows_trans:
  assumes "grows m m' a" and "grows m' m'' b"
  shows "grows m m'' (\<lambda>n. a n @ b n)"
  unfolding grows_def
proof
  fix n
  from assms have a: "Map_get m' n =
        (case Map_get m n of None \<Rightarrow> if a n = [] then None else Some (a n)
         | Some old \<Rightarrow> Some (old @ a n))"
    and b: "Map_get m'' n =
        (case Map_get m' n of None \<Rightarrow> if b n = [] then None else Some (b n)
         | Some old \<Rightarrow> Some (old @ b n))"
    by (simp_all add: grows_def)
  show "Map_get m'' n =
        (case Map_get m n of None \<Rightarrow> if a n @ b n = [] then None else Some (a n @ b n)
         | Some old \<Rightarrow> Some (old @ a n @ b n))"
    by (simp add: a b split: option.splits)
qed

lemma add_metric_grows:
  "\<exists>m'. add_metric pf m e = Inr m'
        \<and> grows m m' (\<lambda>n. map (to_sample pf) (reading_at n e))
        \<and> (distinct (map fst m) \<longrightarrow> distinct (map fst m'))"
proof (cases e)
  case (Pair k v)
  show ?thesis
  proof (cases v)
    case (Reading r)
    show ?thesis
    proof (cases "Map_get m k")
      case None
      then show ?thesis
        by (simp add: Pair Reading add_metric_def Map_has_def Map_get_Map_set grows_def
            to_sample_def distinct_Map_set split: option.splits)
    next
      case (Some old)
      then show ?thesis
        by (simp add: Pair Reading add_metric_def Map_has_def Map_get_Map_set grows_def
            to_sample_def distinct_Map_set split: option.splits)
    qed
  next
    case (Number x)
    then show ?thesis by (simp add: Pair add_metric_def grows_refl)
  next
    case Null
    then show ?thesis by (simp add: Pair add_metric_def grows_refl)
  qed
qed

lemma forEach_add_metric_grows:
  "\<exists>m'. forEach (add_metric pf) es m = Inr m'
        \<and> grows m m' (\<lambda>n. map (to_sample pf) (concat (map (reading_at n) es)))
        \<and> (distinct (map fst m) \<longrightarrow> distinct (map fst m'))"
proof (induction es arbitrary: m)
  case Nil
  show ?case by (simp add: grows_refl)
next
  case (Cons e es)
  obtain m1 where m1: "add_metric pf m e = Inr m1"
    "grows m m1 (\<lambda>n. map (to_sample pf) (reading_at n e))"
    "distinct (map fst m) \<longrightarrow> distinct (map fst m1)"
    using add_metric_grows by blast
  obtain m2 where m2: "forEach (add_metric pf) es m1 = Inr m2"
    "grows m1 m2 (\<lambda>n. map (to_sample pf) (concat (map (reading_at n) es)))"
    "distinct (map fst m1) \<longrightarrow> distinct (map fst m2)"
    using Cons.IH by blast
  have "grows m m2 (\<lambda>n. map (to_sample pf) (reading_at n e)
                        @ map (to_sample pf) (concat (map (reading_at n) es)))"
    by (rule grows_trans [OF m1(2) m2(2)])
  then show ?case using m1 m2 by simp
qed

lemma forEach_add_item_grows:
  "\<exists>m'. forEach (add_item pf) ds m = Inr m'
        \<and> grows m m' (\<lambda>n. map (to_sample pf) (readings_of ds n))
        \<and> (distinct (map fst m) \<longrightarrow> distinct (map fst m'))"
proof (induction ds arbitrary: m)
  case Nil
  show ?case by (simp add: grows_refl readings_of_def)
next
  case (Cons d ds)
  obtain m1 where m1: "add_item pf m d = Inr m1"
    "grows m m1 (\<lambda>n. map (to_sample pf) (concat (map (reading_at n) (metrics d))))"
    "distinct (map fst m) \<longrightarrow> distinct (map fst m1)"
    unfolding add_item_def using forEach_add_metric_grows by blast
  obtain m2 where m2: "forEach (add_item pf) ds m1 = Inr m2"
    "grows m1 m2 (\<lambda>n. map (to_sample pf) (readings_of ds n))"
    "distinct (map fst m1) \<longrightarrow> distinct (map fst m2)"
    using Cons.IH by blast
  have "grows m m2 (\<lambda>n. map (to_sample pf) (concat (map (reading_at n) (metrics d)))
                        @ map (to_sample pf) (readings_of ds n))"
    by (rule grows_trans [OF m1(2) m2(2)])
  then have "grows m m2 (\<lambda>n. map (to_sample pf) (readings_of (d # ds) n))"
    by (simp add: readings_of_def)
  then show ?case using m1 m2 by simp
qed

lemma Map_get_sort_metrics:
  "Map_get (sort_metrics m) n = map_option (sort_key timestamp) (Map_get m n)"
  by (induction m) (auto simp: sort_metrics_def js_sort_by_timestamp)

lemma keys_sort_metrics: "map fst (sort_metrics m) = map fst m"
  by (induction m) (auto simp: sort_metrics_def)

lemma chartData_normalized:
  assumes "ds \<noteq> []"
  shows "\<exists>m. chartData pf (Some ds) = Inr (Some m)
           \<and> distinct (map fst m)
           \<and> (\<forall>n. Map_get m n =
                 (if readings_of ds n = [] then None
                  else Some (sort_key timestamp (map (to_sample pf) (readings_of ds n)))))"
proof -
  obtain m1 where m1: "forEach (add_item pf) ds [] = Inr m1"
    "grows [] m1 (\<lambda>n. map (to_sample pf) (readings_of ds n))"
    "distinct (map fst m1)"
    using forEach_add_item_grows [of pf ds "[]"] by auto
  have "chartData pf (Some ds) = Inr (Some (sort_metrics m1))"
    using assms m1(1) by (simp add: chartData_def)
  moreover have "distinct (map fst (sort_metrics m1))"
    using m1(3) by (simp add: keys_sort_metrics)
  moreover have "Map_get (sort_metrics m1) n =
                 (if readings_of ds n = [] then None
                  else Some (sort_key timestamp (map (to_sample pf) (readings_of ds n))))" for n
    using m1(2) by (simp add: Map_get_sort_metrics grows_def)
  ultimately show ?thesis by blast
qed

lemma metrics_distinct: "distinct (map fst item) \<Longrightarrow> distinct (map fst (metrics item))"
  by (simp add: metrics_def distinct_map_filter)

lemma in_metrics: "(n, v) \<in> set (metrics item) \<longleftrightarrow> n \<noteq> ''category'' \<and> (n, v) \<in> set item"
  by (auto simp: metrics_def)

lemma reading_at_set: "set (reading_at n e) = {r. e = (n, Reading r)}"
  by (cases "(n, e)" rule: reading_at.cases) auto

lemma readings_at_set:
  "set (concat (map (reading_at n) es)) = {r. (n, Reading r) \<in> set es}"
  by (auto simp: reading_at_set)

lemma readings_at_length:
  "distinct (map fst es) \<Longrightarrow>
   length (concat (map (reading_at n) es)) = (if \<exists>r. (n, Reading r) \<in> set es then 1 else 0)"
proof (induction es)
  case Nil
  show ?case by simp
next
  case (Cons e es)
  obtain k v where e: "e = (k, v)" by (cases e)
  from Cons.prems have k: "k \<notin> fst ` set es" and d: "distinct (map fst es)"
    by (simp_all add: e)
  show ?case
  proof (cases "k = n \<and> (\<exists>r. v = Reading r)")
    case True
    then obtain r where v: "v = Reading r" and kn: "k = n" by blast
    have "\<not> (\<exists>r'. (n, Reading r') \<in> set es)"
      using k kn by force
    then show ?thesis using Cons.IH [OF d] by (simp add: e v kn)
  next
    case False
    then have "reading_at n e = []"
      unfolding e by (cases "(n, k, v)" rule: reading_at.cases) auto
    moreover have "(\<exists>r. (n, Reading r) \<in> set (e # es)) = (\<exists>r. (n, Reading r) \<in> set es)"
      using False by (auto simp: e)
    ultimately show ?thesis using Cons.IH [OF d] by simp
  qed
qed

lemma readings_of_set:
  "set (readings_of ds n) = {r. n \<noteq> ''category'' \<and> (\<exists>item \<in> set ds. (n, Reading r) \<in> set item)}"
proof -
  have "set (readings_of ds n) = (\<Union>item \<in> set ds. set (concat (map (reading_at n) (metrics item))))"
    by (simp add: readings_of_def)
  also have "\<dots> = (\<Union>item \<in> set ds. {r. (n, Reading r) \<in> set (metrics item)})"
    by (simp only: readings_at_set)
  also have "\<dots> = {r. n \<noteq> ''category'' \<and> (\<exists>item \<in> set ds. (n, Reading r) \<in> set item)}"
    by (auto simp: in_metrics)
  finally show ?thesis .
qed

lemma readings_of_length:
  "\<forall>item \<in> set ds. distinct (map fst item) \<Longrightarrow> n \<noteq> ''category'' \<Longrightarrow>
   length (readings_of ds n) = length (filter (\<lambda>item. \<exists>r. (n, Reading r) \<in> set item) ds)"
proof (induction ds)
  case Nil
  show ?case by (simp add: readings_of_def)
next
  case (Cons d ds)
  have "length (concat (map (reading_at n) (metrics d)))
          = (if \<exists>r. (n, Reading r) \<in> set d then 1 else 0)"
    using Cons.prems readings_at_length [of "metrics d" n]
    by (simp add: metrics_distinct in_metrics)
  moreover have "readings_of (d # ds) n
                   = concat (map (reading_at n) (metrics d)) @ readings_of ds n"
    by (simp add: readings_of_def)
  ultimately show ?case using Cons by simp
qed

section \<open>Facts about the builder\<close>

lemma series_data_nth:
  "i < length ts \<Longrightarrow>
   series_data ts values ! i =
     (if filter (\<lambda>s. timestamp s = ts ! i) values = [] then Gap
      else Point (val (last (filter (\<lambda>s. timestamp s = ts ! i) values))))"
  by (simp add: series_data_def Map_get_dataMap)

lemma length_series_data: "length (series_data ts values) = length ts"
  by (simp add: series_data_def)

lemma forEach_add_series:
  "\<forall>n \<in> set ns. Map_get m n \<noteq> None \<Longrightarrow>
   forEach (add_series m ts) ns acc =
     Inr (acc @ map (\<lambda>n. \<lparr>name = n, data = series_data ts (series_for m n),
                            color = itemStyle_color (series_for m n)\<rparr>) ns)"
proof (induction ns arbitrary: acc)
  case Nil
  show ?case by simp
next
  case (Cons n ns)
  from Cons.prems obtain vs where v: "Map_get m n = Some vs" by auto
  have "add_series m ts acc n =
          Inr (acc @ [\<lparr>name = n, data = series_data ts (series_for m n),
                       color = itemStyle_color (series_for m n)\<rparr>])"
    by (simp add: add_series_def series_for_def v)
  moreover have "\<forall>n \<in> set ns. Map_get m n \<noteq> None" using Cons.prems by simp
  ultimately show ?case using Cons.IH by simp
qed

lemma build_series_eq:
  "build_series m =
     Inr (map (\<lambda>n. \<lparr>name = n, data = series_data (sortedTimestamps m) (series_for m n),
                     color = itemStyle_color (series_for m n)\<rparr>) (metricNames m))"
proof -
  have "\<forall>n \<in> set (metricNames m). Map_get m n \<noteq> None"
    by (simp add: metricNames_def Map_keys_def Map_get_None_iff)
  then show ?thesis
    unfolding build_series_def by (simp add: forEach_add_series)
qed

lemma add_line_eq:
  "Map_get m (seriesName p) = Some values \<Longrightarrow>
   add_line h m (Some t) result p =
     Inr (result @ (case filter (\<lambda>s. timestamp s = t) values of
                      [] \<Rightarrow> [] | s # rest \<Rightarrow> tooltip_line h p s))"
  by (simp add: add_line_def find_first_filter split: list.splits)

lemma forEach_add_line:
  "\<forall>p \<in> set ps. Map_get m (seriesName p) \<noteq> None \<Longrightarrow>
   forEach (add_line h m (Some t)) ps result =
     Inr (result @ concat (map (\<lambda>p. case filter (\<lambda>s. timestamp s = t) (series_for m (seriesName p)) of
                                       [] \<Rightarrow> [] | s # rest \<Rightarrow> tooltip_line h p s) ps))"
proof (induction ps arbitrary: result)
  case Nil
  show ?case by simp
next
  case (Cons p ps)
  from Cons.prems obtain vs where v: "Map_get m (seriesName p) = Some vs" by auto
  have "add_line h m (Some t) result p =
     Inr (result @ (case filter (\<lambda>s. timestamp s = t) (series_for m (seriesName p)) of
                      [] \<Rightarrow> [] | s # rest \<Rightarrow> tooltip_line h p s))"
    using add_line_eq [OF v] by (simp add: series_for_def v)
  moreover have "\<forall>p \<in> set ps. Map_get m (seriesName p) \<noteq> None" using Cons.prems by simp
  ultimately show ?case using Cons.IH by simp
qed

lemma formatter_eq:
  assumes "ps \<noteq> []" and "\<forall>p \<in> set ps. Map_get m (seriesName p) \<noteq> None"
    and "dataIndex (hd ps) < length (sortedTimestamps m)"
  shows "formatter h m (ParamArray ps) =
     Inr (dateTimeString h (sortedTimestamps m ! dataIndex (hd ps)) @ ''<br/>''
          @ concat (map (\<lambda>p. case filter (\<lambda>s. timestamp s = sortedTimestamps m ! dataIndex (hd ps))
                                      (series_for m (seriesName p)) of
                                 [] \<Rightarrow> [] | s # rest \<Rightarrow> tooltip_line h p s) ps))"
proof -
  obtain p0 ps' where ps: "ps = p0 # ps'" using assms(1) by (cases ps) auto
  have idx: "index (sortedTimestamps m) (dataIndex p0) = Some (sortedTimestamps m ! dataIndex p0)"
    using assms(3) by (simp add: index_def ps)
  show ?thesis
    using forEach_add_line [OF assms(2), of h "sortedTimestamps m ! dataIndex p0"]
    by (simp add: formatter_def ps idx dateStr_def del: forEach.simps)
qed

lemma build_series_props:
  "\<exists>ser. build_series m = Inr ser \<and> map name ser = metricNames m
     \<and> (\<forall>j < length ser. data (ser ! j) = series_data (sortedTimestamps m) (series_for m (name (ser ! j)))
            \<and> color (ser ! j) = itemStyle_color (series_for m (name (ser ! j)))
            \<and> Map_get m (name (ser ! j)) = Some (series_for m (name (ser ! j))))"
proof -
  let ?mk = "\<lambda>n. \<lparr>name = n, data = series_data (sortedTimestamps m) (series_for m n),
                   color = itemStyle_color (series_for m n)\<rparr>"
  let ?ser = "map ?mk (metricNames m)"
  have names: "map name ?ser = metricNames m"
    by (simp add: comp_def)
  have "Map_get m (name (?ser ! j)) = Some (series_for m (name (?ser ! j)))"
    if "j < length ?ser" for j
  proof -
    from that have "metricNames m ! j \<in> set (metricNames m)"
      by (intro nth_mem) simp
    then have "metricNames m ! j \<in> set (map fst m)"
      by (simp only: metricNames_def Map_keys_def)
    then have "Map_get m (metricNames m ! j) \<noteq> None"
      by (simp only: Map_get_None_iff not_not)
    then show ?thesis using that by (auto simp: series_for_def)
  qed
  then have "\<forall>j < length ?ser. data (?ser ! j) = series_data (sortedTimestamps m) (series_for m (name (?ser ! j)))
            \<and> color (?ser ! j) = itemStyle_color (series_for m (name (?ser ! j)))
            \<and> Map_get m (name (?ser ! j)) = Some (series_for m (name (?ser ! j)))"
    by simp
  with names show ?thesis
    using build_series_eq [of m] by blast
qed


lemma build_option_eq:
  "build_series m = Inr ser \<Longrightarrow>
   build_option h m =
     Inr \<lparr>tooltip_formatter = formatter h m, legend_data = metricNames m,
          xAxis_data = map (axisString h) (sortedTimestamps m), series_list = ser\<rparr>"
  by (simp add: build_option_def)

lemma chart_effect_None: "chart_effect h mounted None inst = Inr (inst, None)"
  by (simp add: chart_effect_def)

lemma chart_effect_Some:
  "build_option h m = Inr opt \<Longrightarrow>
   chart_effect h mounted (Some m) inst =
     Inr (if mounted
          then (Some ((case inst of None \<Rightarrow> [] | Some opts \<Rightarrow> opts) @ [opt]), Some opt)
          else (inst, None))"
  by (simp add: chart_effect_def)

lemma chartData_empty:
  "input = None \<or> input = Some [] \<Longrightarrow> chartData parseFloat input = Inr None"
  by (auto simp: chartData_def)

lemma filter_timestamp_to_sample:
  "filter (\<lambda>s. timestamp s = t) (sort_key timestamp (map (to_sample pf) rs))
     = map (to_sample pf) (filter (\<lambda>r. rtimestamp r = t) rs)"
proof -
  have "filter (\<lambda>s. timestamp s = t) (sort_key timestamp (map (to_sample pf) rs))
          = filter (\<lambda>s. timestamp s = t) (map (to_sample pf) rs)"
    by (rule sort_key_stable)
  also have "\<dots> = map (to_sample pf) (filter (\<lambda>r. rtimestamp r = t) rs)"
    by (simp add: filter_map comp_def to_sample_def)
  finally show ?thesis .
qed

lemma entry_of_readings:
  assumes "i < length ts"
  shows "series_data ts (sort_key timestamp (map (to_sample pf) rs)) ! i =
     (case filter (\<lambda>r. rtimestamp r = ts ! i) rs of
        [] \<Rightarrow> Gap
      | r # rest \<Rightarrow> Point (pf (rvalue (last (r # rest)))))"
proof (cases "filter (\<lambda>r. rtimestamp r = ts ! i) rs")
  case Nil
  then show ?thesis
    by (simp add: series_data_nth [OF assms] filter_timestamp_to_sample)
next
  case (Cons r rest)
  then have "val (last (map (to_sample pf) (filter (\<lambda>r. rtimestamp r = ts ! i) rs)))
               = pf (rvalue (last (r # rest)))"
    by (simp only: last_map [of "r # rest"] list.distinct not_False_eq_True)
       (simp add: to_sample_def)
  then show ?thesis using Cons
    by (simp add: series_data_nth [OF assms] filter_timestamp_to_sample del: last.simps)
qed

lemma index_of_timestamp:
  assumes "Map_get m n = Some vs" and "s0 \<in> set vs"
  shows "\<exists>i. i < length (sortedTimestamps m) \<and> sortedTimestamps m ! i = timestamp s0
           \<and> (\<forall>i' < length (sortedTimestamps m).
                  sortedTimestamps m ! i' = timestamp s0 \<longrightarrow> i' = i)"
proof -
  have "(n, vs) \<in> set m" using assms(1) by (rule Map_get_SomeD)
  then have "timestamp s0 \<in> timestamp ` (\<Union>p \<in> set m. set (snd p))"
    using assms(2) by force
  then have "timestamp s0 \<in> set (sortedTimestamps m)"
    by (simp only: set_sortedTimestamps)
  then obtain i where i: "i < length (sortedTimestamps m)" "sortedTimestamps m ! i = timestamp s0"
    by (auto simp: in_set_conv_nth)
  have "i' = i" if "i' < length (sortedTimestamps m)" "sortedTimestamps m ! i' = timestamp s0" for i'
    using that i distinct_sortedTimestamps [of m] by (metis nth_eq_iff_index_eq)
  with i show ?thesis by blast
qed

lemma sortedTimestamps_Nil: "sortedTimestamps [] = []"
  by (simp add: sortedTimestamps_def allTimestamps_def js_sort_def)

lemma forEach_add_line_total:
  "\<forall>p \<in> set ps. Map_get m (seriesName p) \<noteq> None \<Longrightarrow>
   \<exists>s. forEach (add_line h m t) ps result = Inr s"
proof (induction ps arbitrary: result)
  case Nil
  show ?case by simp
next
  case (Cons p ps)
  from Cons.prems obtain vs where v: "Map_get m (seriesName p) = Some vs" by auto
  obtain r where r: "add_line h m t result p = Inr r"
    by (cases "find_first (\<lambda>item. Some (timestamp item) = t) vs") (simp_all add: add_line_def v)
  moreover have "\<forall>p \<in> set ps. Map_get m (seriesName p) \<noteq> None" using Cons.prems by simp
  ultimately show ?case using Cons.IH [of r] by simp
qed

lemma formatter_total:
  assumes "\<forall>p \<in> set ps. Map_get m (seriesName p) \<noteq> None"
  shows "\<exists>s. formatter h m (ParamArray ps) = Inr s"
proof (cases ps)
  case Nil
  then show ?thesis by (simp add: formatter_def)
next
  case (Cons p0 ps')
  show ?thesis
    using forEach_add_line_total [OF assms, of h]
    by (simp add: formatter_def Cons Let_def del: forEach.simps)
qed

text \<open>
  Where the array of a metric has exactly one sample per position of the timeline, the index
  of the aligned data is the index of the array, and the color callback reads the status of
  the sample that is drawn.
\<close>

lemma filter_timestamp_distinct:
  assumes "distinct (map timestamp vs)" and "i < length vs"
  shows "filter (\<lambda>s. timestamp s = timestamp (vs ! i)) vs = [vs ! i]"
  using assms
proof (induction vs arbitrary: i)
  case Nil
  then show ?case by simp
next
  case (Cons v vs)
  show ?case
  proof (cases i)
    case 0
    have "timestamp v \<notin> timestamp ` set vs"
      using Cons.prems(1) by simp
    then have "\<forall>s \<in> set vs. timestamp s \<noteq> timestamp v"
      by (metis imageI)
    then have "filter (\<lambda>s. timestamp s = timestamp v) vs = []"
      by (simp add: filter_empty_conv)
    then show ?thesis by (simp add: 0)
  next
    case (Suc k)
    then have k: "k < length vs" using Cons.prems(2) by simp
    then have "vs ! k \<in> set vs" by simp
    then have "timestamp v \<noteq> timestamp (vs ! k)" using Cons.prems(1) by auto
    then show ?thesis using Cons.IH [OF _ k] Cons.prems(1) by (simp add: Suc)
  qed
qed

lemma color_when_aligned:
  assumes "map timestamp vs = ts" and "distinct ts" and "i < length ts"
  shows "series_data ts vs ! i = Point (val (vs ! i))
         \<and> itemStyle_color vs i = status_color (status (vs ! i))"
proof -
  have i: "i < length vs" using assms(1,3) by auto
  have t: "ts ! i = timestamp (vs ! i)" using assms(1) i by auto
  have "filter (\<lambda>s. timestamp s = ts ! i) vs = [vs ! i]"
    unfolding t using assms(1,2) i by (intro filter_timestamp_distinct) simp_all
  then show ?thesis
    by (simp add: series_data_nth [OF assms(3)] itemStyle_color_def index_def i)
qed

text \<open>The color table, its default, and a key that the table inherits.\<close>

lemma status_color_table:
  "status_color ''GOOD'' = Color ''#52c41a''"
  "status_color ''WARNING'' = Color ''#faad14''"
  "status_color ''ERROR'' = Color ''#f5222d''"
  "status_color ''UNKNOWN_STATUS'' = Color ''#1890ff''"
  "status_color ''toString'' = Inherited ''toString''"
  by (simp_all add: status_color_def statusColors_def Object_prototype_def)

lemma status_color_default:
  "st \<notin> {''GOOD'', ''WARNING'', ''ERROR''} \<Longrightarrow> st \<notin> set Object_prototype \<Longrightarrow>
   status_color st = Color ''#1890ff''"
  by (auto simp: status_color_def statusColors_def)

section \<open>Facts about the memo on a store\<close>

text \<open>
  Every step of the memo on a store does what the step on values does, keeps the arrays of
  the keys apart, and writes only to objects that the run has created.
\<close>

lemma Map_set_absent: "k \<notin> set (map fst m) \<Longrightarrow> Map_set m k v = m @ [(k, v)]"
  by (induction m) auto

lemma Map_get_in_set: "distinct (map fst m) \<Longrightarrow> (k, v) \<in> set m \<Longrightarrow> Map_get m k = Some v"
  by (simp add: Map_get_map_of)

lemma Map_get_snoc:
  "Map_get (m @ [(k, v)]) k' =
     (case Map_get m k' of Some x \<Rightarrow> Some x | None \<Rightarrow> if k' = k then Some v else None)"
  by (induction m) auto

lemma Map_set_snoc: "k \<notin> set (map fst m) \<Longrightarrow> Map_set (m @ [(k, v)]) k w = m @ [(k, w)]"
  by (induction m) auto

lemma representsD:
  assumes "represents base s mp m"
  shows "\<exists>ma. map_at s mp = Some ma \<and> base \<le> mp \<and> mp < next_addr s
           \<and> map fst ma = map fst m \<and> distinct (map fst ma) \<and> distinct (map snd ma)
           \<and> (\<forall>k a. (k, a) \<in> set ma \<longrightarrow>
                 (\<exists>xs. base \<le> a \<and> a < next_addr s \<and> array_at s a = Some xs
                       \<and> Map_get m k = Some xs))"
proof -
  from assms obtain ma where ma: "map_at s mp = Some ma" "base \<le> mp" "mp < next_addr s"
    "map fst ma = map fst m" "distinct (map fst ma)" "distinct (map snd ma)"
    "list_all (\<lambda>(k, a). base \<le> a \<and> a < next_addr s
                \<and> (\<exists>xs. array_at s a = Some xs \<and> Map_get m k = Some xs)) ma"
    unfolding represents_def by blast
  have "\<forall>k a. (k, a) \<in> set ma \<longrightarrow>
          (\<exists>xs. base \<le> a \<and> a < next_addr s \<and> array_at s a = Some xs \<and> Map_get m k = Some xs)"
    using ma(7) unfolding list_all_iff by fastforce
  with ma(1-6) show ?thesis by blast
qed

lemma representsI:
  assumes "map_at s mp = Some ma" "base \<le> mp" "mp < next_addr s"
    "map fst ma = map fst m" "distinct (map fst ma)" "distinct (map snd ma)"
    "\<And>k a. (k, a) \<in> set ma \<Longrightarrow>
       \<exists>xs. base \<le> a \<and> a < next_addr s \<and> array_at s a = Some xs \<and> Map_get m k = Some xs"
  shows "represents base s mp m"
proof -
  have "list_all (\<lambda>(k, a). base \<le> a \<and> a < next_addr s
                \<and> (\<exists>xs. array_at s a = Some xs \<and> Map_get m k = Some xs)) ma"
    unfolding list_all_iff using assms(7) by fastforce
  with assms(1-6) show ?thesis unfolding represents_def by blast
qed

lemma read_entries_represented:
  "map fst ma = map fst m \<Longrightarrow> distinct (map fst m) \<Longrightarrow>
   (\<And>k a. (k, a) \<in> set ma \<Longrightarrow> \<exists>xs. array_at s a = Some xs \<and> Map_get m k = Some xs) \<Longrightarrow>
   read_entries s ma = Inr m"
proof (induction ma arbitrary: m)
  case Nil
  then show ?case by simp
next
  case (Cons p ma)
  obtain k a where p: "p = (k, a)" by (cases p)
  from Cons.prems(1) obtain xs m' where m: "m = (k, xs) # m'" and keys: "map fst ma = map fst m'"
    by (cases m) (auto simp: p)
  from Cons.prems(2) have d: "distinct (map fst m')" and k: "k \<notin> set (map fst m')"
    by (simp_all add: m)
  from Cons.prems(3) [of k a] have a: "array_at s a = Some xs"
    by (simp add: p m)
  have "\<exists>ys. array_at s a' = Some ys \<and> Map_get m' k' = Some ys" if q: "(k', a') \<in> set ma" for k' a'
  proof -
    from q have "k' \<in> set (map fst ma)" by force
    then have "k' \<noteq> k" using k keys by auto
    then show ?thesis using Cons.prems(3) [of k' a'] q by (simp add: p m)
  qed
  then have "read_entries s ma = Inr m'"
    by (rule Cons.IH [OF keys d])
  then show ?case by (simp add: p m a)
qed

lemma read_represented:
  assumes "represents base s mp m"
  shows "read_chartData s (Some mp) = Inr (Some m)"
proof -
  from representsD [OF assms] obtain ma where ma: "map_at s mp = Some ma"
    "map fst ma = map fst m" "distinct (map fst ma)"
    "\<And>k a. (k, a) \<in> set ma \<Longrightarrow>
       \<exists>xs. base \<le> a \<and> a < next_addr s \<and> array_at s a = Some xs \<and> Map_get m k = Some xs"
    by blast
  have "distinct (map fst m)" using ma(2,3) by simp
  moreover have "\<exists>xs. array_at s a = Some xs \<and> Map_get m k = Some xs" if "(k, a) \<in> set ma" for k a
    using ma(4) [OF that] by blast
  ultimately have "read_entries s ma = Inr m"
    using ma(2) by (intro read_entries_represented)
  then show ?thesis by (simp add: read_chartData_def ma(1))
qed

lemma unchanged_below_refl: "unchanged_below base s s"
  by (simp add: unchanged_below_def)

lemma unchanged_below_trans:
  "unchanged_below base s s' \<Longrightarrow> unchanged_below base s' s'' \<Longrightarrow> unchanged_below base s s''"
  by (auto simp: unchanged_below_def)

lemma represents_unchanged:
  assumes "represents base s mp m" and "unchanged_below (next_addr s) s s'"
  shows "represents base s' mp m"
proof -
  from representsD [OF assms(1)] obtain ma where ma: "map_at s mp = Some ma"
    "base \<le> mp" "mp < next_addr s"
    "map fst ma = map fst m" "distinct (map fst ma)" "distinct (map snd ma)"
    "\<And>k a. (k, a) \<in> set ma \<Longrightarrow>
       \<exists>xs. base \<le> a \<and> a < next_addr s \<and> array_at s a = Some xs \<and> Map_get m k = Some xs"
    by blast
  from assms(2) have le: "next_addr s \<le> next_addr s'"
    and same: "\<And>a. a < next_addr s \<Longrightarrow> array_at s' a = array_at s a \<and> map_at s' a = map_at s a"
    by (auto simp: unchanged_below_def)
  have "map_at s' mp = Some ma" using same [OF ma(3)] ma(1) by simp
  moreover have "mp < next_addr s'" using ma(3) le by simp
  moreover have "\<exists>xs. base \<le> a \<and> a < next_addr s' \<and> array_at s' a = Some xs \<and> Map_get m k = Some xs"
    if "(k, a) \<in> set ma" for k a
  proof -
    from ma(7) [OF that] obtain xs where xs: "base \<le> a" "a < next_addr s"
      "array_at s a = Some xs" "Map_get m k = Some xs" by blast
    then show ?thesis using same [OF xs(2)] le by auto
  qed
  ultimately show ?thesis
    using ma(2,4,5,6) by (intro representsI)
qed

lemma add_metric_st_simulates:
  assumes "represents base s mp m"
  shows "\<exists>s' m'. add_metric_st pf mp s e = Inr s' \<and> add_metric pf m e = Inr m'
           \<and> represents base s' mp m' \<and> unchanged_below base s s'"
proof (cases e)
  case (Pair k v)
  from representsD [OF assms] obtain ma where ma: "map_at s mp = Some ma"
    "base \<le> mp" "mp < next_addr s"
    "map fst ma = map fst m" "distinct (map fst ma)" "distinct (map snd ma)"
    "\<And>k a. (k, a) \<in> set ma \<Longrightarrow>
       \<exists>xs. base \<le> a \<and> a < next_addr s \<and> array_at s a = Some xs \<and> Map_get m k = Some xs"
    by blast
  show ?thesis
  proof (cases v)
    case (Reading r)
    let ?x = "\<lparr>timestamp = rtimestamp r, val = pf (rvalue r), status = rstatus r\<rparr>"
    show ?thesis
    proof (cases "Map_get ma k")
      case None
      then have kma: "k \<notin> set (map fst ma)" by (simp add: Map_get_None_iff)
      then have km: "k \<notin> set (map fst m)" by (simp add: ma(4))
      then have gm: "Map_get m k = None" by (simp add: Map_get_None_iff)
      let ?a = "next_addr s"
      let ?ma' = "ma @ [(k, ?a)]"
      let ?s' = "s\<lparr>array_at := (array_at s)(?a \<mapsto> [?x]), next_addr := Suc ?a,
                   map_at := (map_at s)(mp \<mapsto> ?ma')\<rparr>"
      let ?m' = "m @ [(k, [?x])]"
      have get: "Map_get ?ma' k = Some ?a"
        by (simp add: Map_get_snoc None)
      have run: "add_metric_st pf mp s e = Inr ?s'"
        by (simp add: Pair Reading add_metric_st_def ma(1) Map_has_def None new_Array_def
            Map_set_absent [OF kma] get Array_push_def)
      have get1: "Map_get (m @ [(k, [])]) k = Some []"
        by (simp add: Map_get_snoc gm)
      have pure: "add_metric pf m e = Inr ?m'"
        by (simp add: Pair Reading add_metric_def Map_has_def gm Map_set_absent [OF km] get1
            Map_set_snoc [OF km])
      have fresh: "?a \<notin> set (map snd ma)"
      proof
        assume "?a \<in> set (map snd ma)"
        then obtain k' where "(k', ?a) \<in> set ma" by auto
        from ma(7) [OF this] show False by simp
      qed
      have each: "\<exists>xs. base \<le> a \<and> a < next_addr ?s' \<and> array_at ?s' a = Some xs
                     \<and> Map_get ?m' k' = Some xs"
        if "(k', a) \<in> set ?ma'" for k' a
      proof (cases "(k', a) \<in> set ma")
        case True
        from ma(7) [OF True] obtain xs where xs: "base \<le> a" "a < ?a" "array_at s a = Some xs"
          "Map_get m k' = Some xs" by blast
        then show ?thesis by (simp add: Map_get_snoc)
      next
        case False
        with that have "k' = k" "a = ?a" by simp_all
        then show ?thesis using ma(2,3) gm by (simp add: Map_get_snoc)
      qed
      have "represents base ?s' mp ?m'"
      proof (rule representsI [where ma = ?ma'])
        show "map_at ?s' mp = Some ?ma'" by simp
        show "base \<le> mp" by (rule ma(2))
        show "mp < next_addr ?s'" using ma(3) by simp
        show "map fst ?ma' = map fst ?m'" by (simp add: ma(4))
        show "distinct (map fst ?ma')" using ma(5) kma by simp
        show "distinct (map snd ?ma')" using ma(6) fresh by simp
        show "\<exists>xs. base \<le> a \<and> a < next_addr ?s' \<and> array_at ?s' a = Some xs
                \<and> Map_get ?m' k' = Some xs" if "(k', a) \<in> set ?ma'" for k' a
          using that by (rule each)
      qed
      moreover have "unchanged_below base s ?s'"
        using ma(2,3) by (auto simp: unchanged_below_def)
      ultimately show ?thesis using run pure by blast
    next
      case (Some a)
      then have in_ma: "(k, a) \<in> set ma" by (rule Map_get_SomeD)
      from ma(7) [OF in_ma] obtain xs where xs: "array_at s a = Some xs" "Map_get m k = Some xs"
        and a: "base \<le> a" "a < next_addr s"
        by auto
      let ?s' = "s\<lparr>array_at := (array_at s)(a \<mapsto> xs @ [?x])\<rparr>"
      let ?m' = "Map_set m k (xs @ [?x])"
      have run: "add_metric_st pf mp s e = Inr ?s'"
        by (simp add: Pair Reading add_metric_st_def ma(1) Map_has_def Some Array_push_def xs(1))
      have pure: "add_metric pf m e = Inr ?m'"
        by (simp add: Pair Reading add_metric_def Map_has_def xs(2))
      have keys: "map fst ?m' = map fst m"
        using xs(2) Map_get_None_iff [of m k] by (simp add: keys_Map_set)
      have each: "\<exists>ys. base \<le> a' \<and> a' < next_addr ?s' \<and> array_at ?s' a' = Some ys
                    \<and> Map_get ?m' k' = Some ys"
        if "(k', a') \<in> set ma" for k' a'
      proof (cases "k' = k")
        case True
        have "Map_get ma k = Some a'"
          using that True ma(5) by (simp add: Map_get_in_set)
        then have "a' = a" using Some by simp
        then show ?thesis using True a by (simp add: Map_get_Map_set)
      next
        case False
        have "a' \<noteq> a"
        proof
          assume "a' = a"
          then have "(k', a) \<in> set ma" using that by simp
          then show False
            using in_ma ma(6) False by (metis distinct_map inj_onD snd_conv fst_conv)
        qed
        then show ?thesis using ma(7) [OF that] False by (simp add: Map_get_Map_set)
      qed
      have "represents base ?s' mp ?m'"
      proof (rule representsI [where ma = ma])
        show "map_at ?s' mp = Some ma" by (simp add: ma(1))
        show "base \<le> mp" by (rule ma(2))
        show "mp < next_addr ?s'" using ma(3) by simp
        show "map fst ma = map fst ?m'" by (simp add: keys ma(4))
        show "distinct (map fst ma)" by (rule ma(5))
        show "distinct (map snd ma)" by (rule ma(6))
        show "\<exists>ys. base \<le> a' \<and> a' < next_addr ?s' \<and> array_at ?s' a' = Some ys
                \<and> Map_get ?m' k' = Some ys" if "(k', a') \<in> set ma" for k' a'
          using that by (rule each)
      qed
      moreover have "unchanged_below base s ?s'"
        using a by (auto simp: unchanged_below_def)
      ultimately show ?thesis using run pure by blast
    qed
  next
    case (Number x)
    then show ?thesis
      using assms by (auto simp: Pair add_metric_st_def add_metric_def unchanged_below_refl)
  next
    case Null
    then show ?thesis
      using assms by (auto simp: Pair add_metric_st_def add_metric_def unchanged_below_refl)
  qed
qed

lemma forEach_add_metric_st_simulates:
  "represents base s mp m \<Longrightarrow>
   \<exists>s' m'. forEach (add_metric_st pf mp) es s = Inr s' \<and> forEach (add_metric pf) es m = Inr m'
           \<and> represents base s' mp m' \<and> unchanged_below base s s'"
proof (induction es arbitrary: s m)
  case Nil
  then show ?case by (simp add: unchanged_below_refl)
next
  case (Cons e es)
  from add_metric_st_simulates [OF Cons.prems, of pf e]
  obtain s1 m1 where 1: "add_metric_st pf mp s e = Inr s1" "add_metric pf m e = Inr m1"
    "represents base s1 mp m1" "unchanged_below base s s1"
    by blast
  from Cons.IH [OF 1(3)]
  obtain s2 m2 where 2: "forEach (add_metric_st pf mp) es s1 = Inr s2"
    "forEach (add_metric pf) es m1 = Inr m2"
    "represents base s2 mp m2" "unchanged_below base s1 s2"
    by blast
  have "unchanged_below base s s2" by (rule unchanged_below_trans [OF 1(4) 2(4)])
  then show ?case using 1 2 by simp
qed

lemma forEach_add_item_st_simulates:
  "represents base s mp m \<Longrightarrow>
   \<exists>s' m'. forEach (add_item_st pf mp) ds s = Inr s' \<and> forEach (add_item pf) ds m = Inr m'
           \<and> represents base s' mp m' \<and> unchanged_below base s s'"
proof (induction ds arbitrary: s m)
  case Nil
  then show ?case by (simp add: unchanged_below_refl)
next
  case (Cons d ds)
  from forEach_add_metric_st_simulates [OF Cons.prems, of pf "metrics d"]
  obtain s1 m1 where 1: "add_item_st pf mp s d = Inr s1" "add_item pf m d = Inr m1"
    "represents base s1 mp m1" "unchanged_below base s s1"
    unfolding add_item_st_def add_item_def by blast
  from Cons.IH [OF 1(3)]
  obtain s2 m2 where 2: "forEach (add_item_st pf mp) ds s1 = Inr s2"
    "forEach (add_item pf) ds m1 = Inr m2"
    "represents base s2 mp m2" "unchanged_below base s1 s2"
    by blast
  have "unchanged_below base s s2" by (rule unchanged_below_trans [OF 1(4) 2(4)])
  then show ?case using 1 2 by simp
qed

lemma forEach_Array_sort:
  "distinct (map snd ps) \<Longrightarrow> (\<forall>a \<in> set (map snd ps). array_at s a \<noteq> None) \<Longrightarrow>
   \<exists>s'. forEach (\<lambda>s (k, values). Array_sort s values) ps s = Inr s'
        \<and> map_at s' = map_at s \<and> next_addr s' = next_addr s
        \<and> (\<forall>b. array_at s' b =
              (if b \<in> set (map snd ps) then map_option (js_sort by_timestamp) (array_at s b)
               else array_at s b))"
proof (induction ps arbitrary: s)
  case Nil
  then show ?case by simp
next
  case (Cons p ps)
  obtain k a where p: "p = (k, a)" by (cases p)
  from Cons.prems(2) obtain xs where xs: "array_at s a = Some xs" by (auto simp: p)
  let ?s1 = "s\<lparr>array_at := (array_at s)(a \<mapsto> js_sort by_timestamp xs)\<rparr>"
  have step: "Array_sort s a = Inr ?s1" by (simp add: Array_sort_def xs)
  from Cons.prems(1) have d: "distinct (map snd ps)" and a: "a \<notin> set (map snd ps)"
    by (simp_all add: p)
  have "\<forall>b \<in> set (map snd ps). array_at ?s1 b \<noteq> None"
    using Cons.prems(2) by auto
  from Cons.IH [OF d this]
  obtain s' where s': "forEach (\<lambda>s (k, values). Array_sort s values) ps ?s1 = Inr s'"
    "map_at s' = map_at ?s1" "next_addr s' = next_addr ?s1"
    "\<forall>b. array_at s' b =
              (if b \<in> set (map snd ps) then map_option (js_sort by_timestamp) (array_at ?s1 b)
               else array_at ?s1 b)"
    by blast
  have "\<forall>b. array_at s' b =
              (if b \<in> set (map snd (p # ps)) then map_option (js_sort by_timestamp) (array_at s b)
               else array_at s b)"
    using s'(4) a xs by (auto simp: p)
  then show ?case using s'(1,2,3) step by (simp add: p)
qed

lemma sort_metrics_st_simulates:
  assumes "represents base s mp m"
  shows "\<exists>s'. sort_metrics_st mp s = Inr s' \<and> represents base s' mp (sort_metrics m)
           \<and> unchanged_below base s s'"
proof -
  from representsD [OF assms] obtain ma where ma: "map_at s mp = Some ma"
    "base \<le> mp" "mp < next_addr s"
    "map fst ma = map fst m" "distinct (map fst ma)" "distinct (map snd ma)"
    "\<And>k a. (k, a) \<in> set ma \<Longrightarrow>
       \<exists>xs. base \<le> a \<and> a < next_addr s \<and> array_at s a = Some xs \<and> Map_get m k = Some xs"
    by blast
  have "\<forall>a \<in> set (map snd ma). array_at s a \<noteq> None"
  proof
    fix a assume "a \<in> set (map snd ma)"
    then obtain k where "(k, a) \<in> set ma" by auto
    from ma(7) [OF this] show "array_at s a \<noteq> None" by auto
  qed
  from forEach_Array_sort [OF ma(6) this]
  obtain s' where s': "forEach (\<lambda>s (k, values). Array_sort s values) ma s = Inr s'"
    "map_at s' = map_at s" "next_addr s' = next_addr s"
    "\<And>b. array_at s' b =
              (if b \<in> set (map snd ma) then map_option (js_sort by_timestamp) (array_at s b)
               else array_at s b)"
    by blast
  have run: "sort_metrics_st mp s = Inr s'"
    by (simp add: sort_metrics_st_def ma(1) s'(1))
  have "represents base s' mp (sort_metrics m)"
  proof (rule representsI [where ma = ma])
    show "map_at s' mp = Some ma" by (simp add: s'(2) ma(1))
    show "base \<le> mp" by (rule ma(2))
    show "mp < next_addr s'" by (simp add: s'(3) ma(3))
    show "map fst ma = map fst (sort_metrics m)" by (simp add: keys_sort_metrics ma(4))
    show "distinct (map fst ma)" by (rule ma(5))
    show "distinct (map snd ma)" by (rule ma(6))
    show "\<exists>xs. base \<le> a \<and> a < next_addr s' \<and> array_at s' a = Some xs
            \<and> Map_get (sort_metrics m) k = Some xs" if "(k, a) \<in> set ma" for k a
    proof -
      from ma(7) [OF that] obtain xs where xs: "base \<le> a" "a < next_addr s"
        "array_at s a = Some xs" "Map_get m k = Some xs" by blast
      have "a \<in> set (map snd ma)" using that by force
      then have "array_at s' a = Some (js_sort by_timestamp xs)"
        by (simp add: s'(4) xs(3))
      then show ?thesis
        using xs by (simp add: s'(3) Map_get_sort_metrics js_sort_by_timestamp)
    qed
  qed
  moreover have "unchanged_below base s s'"
    unfolding unchanged_below_def
  proof (intro conjI allI impI)
    show "next_addr s \<le> next_addr s'" by (simp add: s'(3))
  next
    fix b assume b: "b < base"
    have "b \<notin> set (map snd ma)"
    proof
      assume "b \<in> set (map snd ma)"
      then obtain k where "(k, b) \<in> set ma" by auto
      from ma(7) [OF this] b show False by auto
    qed
    then show "array_at s' b = array_at s b" by (simp add: s'(4))
  next
    fix b show "map_at s' b = map_at s b" by (simp add: s'(2))
  qed
  ultimately show ?thesis using run by blast
qed

lemma chartData_st_run:
  "\<exists>s' r cd. chartData_st pf input s = Inr (s', r) \<and> chartData pf input = Inr cd
      \<and> unchanged_below (next_addr s) s s'
      \<and> (r = None \<and> cd = None
          \<or> (\<exists>mp m. r = Some mp \<and> cd = Some m \<and> represents (next_addr s) s' mp m))"
proof (cases "input = None \<or> input = Some []")
  case True
  then show ?thesis
    by (auto simp: chartData_st_def chartData_def unchanged_below_refl)
next
  case False
  then obtain ds where input: "input = Some ds" and ne: "ds \<noteq> []"
    by (cases input) auto
  let ?mp = "next_addr s"
  let ?s0 = "s\<lparr>map_at := (map_at s)(?mp \<mapsto> []), next_addr := Suc ?mp\<rparr>"
  have r0: "represents ?mp ?s0 ?mp []"
    by (rule representsI [where ma = "[]"]) simp_all
  have u0: "unchanged_below ?mp s ?s0"
    by (simp add: unchanged_below_def)
  from forEach_add_item_st_simulates [OF r0, of pf ds]
  obtain s1 m1 where 1: "forEach (add_item_st pf ?mp) ds ?s0 = Inr s1"
    "forEach (add_item pf) ds [] = Inr m1"
    "represents ?mp s1 ?mp m1" "unchanged_below ?mp ?s0 s1"
    by blast
  from sort_metrics_st_simulates [OF 1(3)]
  obtain s2 where 2: "sort_metrics_st ?mp s1 = Inr s2"
    "represents ?mp s2 ?mp (sort_metrics m1)" "unchanged_below ?mp s1 s2"
    by blast
  have run: "chartData_st pf input s = Inr (s2, Some ?mp)"
    using ne 1(1) 2(1) by (simp add: chartData_st_def input new_Map_object_def)
  have pure: "chartData pf input = Inr (Some (sort_metrics m1))"
    using ne 1(2) by (simp add: chartData_def input)
  have "unchanged_below ?mp s s2"
    by (rule unchanged_below_trans [OF unchanged_below_trans [OF u0 1(4)] 2(3)])
  then show ?thesis using run pure 2(2) by blast
qed

lemma read_chartData_None: "read_chartData s None = Inr None"
  by (simp add: read_chartData_def)

lemma chart_effect_st_read:
  "read_chartData s r = Inr cd \<Longrightarrow>
   chart_effect_st h mounted s r inst = chart_effect h mounted cd inst"
  by (simp add: chart_effect_st_def)

lemma build_option_total: "\<exists>opt. build_option h m = Inr opt"
proof -
  obtain ser where "build_series m = Inr ser"
    using build_series_props [of m] by blast
  then show ?thesis using build_option_eq by blast
qed

section \<open>The examples, evaluated\<close>

lemmas example_defs = example_parseFloat_def example_input_def example_metrics_def

lemma chartData_example:
  "chartData example_parseFloat (Some example_input) = Inr (Some example_metrics)"
  by (simp add: example_defs chartData_def add_item_def add_metric_def metrics_def Map_has_def
      sort_metrics_def js_sort_def by_timestamp_def)

lemma sortedTimestamps_example: "sortedTimestamps example_metrics = [1000, 2000, 3000]"
  by (simp add: example_metrics_def sortedTimestamps_def allTimestamps_def js_sort_def Set_add_def)

lemma example_input_wf:
  "example_input \<noteq> []" "\<forall>item \<in> set example_input. distinct (map fst item)"
  by (simp_all add: example_input_def)

lemma metricNames_example: "metricNames example_metrics = [''cpu'', ''mem'']"
  by (simp add: metricNames_def Map_keys_def example_metrics_def)

lemma readings_of_example_cpu:
  "readings_of example_input ''cpu'' =
     [\<lparr>rvalue = ''10'', rtimestamp = 1000, rstatus = ''GOOD''\<rparr>,
      \<lparr>rvalue = ''20'', rtimestamp = 2000, rstatus = ''GOOD''\<rparr>,
      \<lparr>rvalue = ''abc'', rtimestamp = 3000, rstatus = ''GOOD''\<rparr>]"
  by (simp add: readings_of_def example_input_def metrics_def)

lemma readings_of_example_mem:
  "readings_of example_input ''mem'' =
     [\<lparr>rvalue = ''5'', rtimestamp = 2000, rstatus = ''WARNING''\<rparr>,
      \<lparr>rvalue = ''7'', rtimestamp = 3000, rstatus = ''ERROR''\<rparr>]"
  by (simp add: readings_of_def example_input_def metrics_def)

lemma chartData_duplicate:
  "chartData example_parseFloat (Some duplicate_input) = Inr (Some duplicate_metrics)"
  by (simp add: example_parseFloat_def duplicate_input_def duplicate_metrics_def
      duplicate_series_def chartData_def add_item_def add_metric_def metrics_def Map_has_def
      sort_metrics_def js_sort_def by_timestamp_def)

lemma readings_of_duplicate:
  "readings_of duplicate_input ''cpu'' =
     [\<lparr>rvalue = ''5'', rtimestamp = 2000, rstatus = ''GOOD''\<rparr>,
      \<lparr>rvalue = ''10'', rtimestamp = 1000, rstatus = ''GOOD''\<rparr>,
      \<lparr>rvalue = ''20'', rtimestamp = 1000, rstatus = ''ERROR''\<rparr>]"
  by (simp add: readings_of_def duplicate_input_def metrics_def)

lemma build_series_example:
  "build_series example_metrics =
     Inr [\<lparr>name = ''cpu'', data = [Point (Num 10), Point (Num 20), Point NaN],
           color = itemStyle_color (series_for example_metrics ''cpu'')\<rparr>,
          \<lparr>name = ''mem'', data = [Gap, Point (Num 5), Point (Num 7)],
           color = itemStyle_color (series_for example_metrics ''mem'')\<rparr>]"
  by (simp add: build_series_eq sortedTimestamps_example metricNames_def Map_keys_def)
     (simp add: example_metrics_def series_for_def series_data_def dataMap_def new_Map_def)

lemma sortedTimestamps_duplicate: "sortedTimestamps duplicate_metrics = [1000, 2000]"
  by (simp add: duplicate_metrics_def duplicate_series_def sortedTimestamps_def
      allTimestamps_def js_sort_def Set_add_def)

lemma build_series_duplicate:
  "build_series duplicate_metrics =
     Inr [\<lparr>name = ''cpu'', data = [Point (Num 20), Point (Num 5)],
           color = itemStyle_color (series_for duplicate_metrics ''cpu'')\<rparr>]"
  by (simp add: build_series_eq sortedTimestamps_duplicate metricNames_def Map_keys_def)
     (simp add: duplicate_metrics_def duplicate_series_def series_for_def series_data_def
       dataMap_def new_Map_def)

lemma formatter_duplicate:
  "formatter example_host duplicate_metrics
     (ParamArray [\<lparr>seriesName = ''cpu'', marker = ''o'', dataIndex = 0\<rparr>])
   = Inr ''1970/01/01 00:00:01<br/>o cpu: 10 (GOOD)<br/>''"
  by (simp add: formatter_def sortedTimestamps_duplicate index_def dateStr_def add_line_def)
     (simp add: duplicate_metrics_def duplicate_series_def example_host_def tooltip_line_def)

text \<open>The memo on the empty store, for the records that arrive out of order.\<close>

lemma chartData_st_duplicate:
  "\<exists>s1. chartData_st example_parseFloat (Some duplicate_input) empty_store = Inr (s1, Some 0)
        \<and> next_addr s1 = 2 \<and> map_at s1 0 = Some [(''cpu'', 1)]
        \<and> array_at s1 1 = Some duplicate_series"
  by (simp add: chartData_st_def duplicate_input_def empty_store_def new_Map_object_def
      add_item_st_def metrics_def add_metric_st_def Map_has_def new_Array_def Array_push_def
      sort_metrics_st_def Array_sort_def js_sort_def by_timestamp_def example_parseFloat_def
      duplicate_series_def)

section \<open>The claims\<close>

text \<open>
  C1, on the example input. The metric \<^verbatim>\<open>mem\<close> has no sample at the first position of
  the timeline, so its aligned data is a gap followed by its two samples. The color callback
  reads \<^verbatim>\<open>metricData[params.dataIndex]\<close>: the index of the aligned array is used in the
  array of the metric, which is not aligned. The point drawn at position 1 is the sample of
  status \<^verbatim>\<open>WARNING\<close>; it gets the color of the sample at index 1 of the metric's array,
  of status \<^verbatim>\<open>ERROR\<close>. The point drawn at position 2, of status \<^verbatim>\<open>ERROR\<close>, gets the
  default color, as the array of the metric has no index 2.
\<close>

theorem color_by_series_index:
  "\<exists>m ser. chartData example_parseFloat (Some example_input) = Inr (Some m)
     \<and> sortedTimestamps m = [1000, 2000, 3000]
     \<and> Map_get m ''mem'' = Some [\<lparr>timestamp = 2000, val = Num 5, status = ''WARNING''\<rparr>,
                                  \<lparr>timestamp = 3000, val = Num 7, status = ''ERROR''\<rparr>]
     \<and> build_series m = Inr ser
     \<and> name (ser ! 1) = ''mem''
     \<and> data (ser ! 1) = [Gap, Point (Num 5), Point (Num 7)]
     \<and> color (ser ! 1) 1 = Color ''#f5222d''
     \<and> color (ser ! 1) 2 = Color ''#1890ff''
     \<and> status_color ''WARNING'' = Color ''#faad14''
     \<and> status_color ''ERROR'' = Color ''#f5222d''"
proof -
  have "Map_get example_metrics ''mem'' =
      Some [\<lparr>timestamp = 2000, val = Num 5, status = ''WARNING''\<rparr>,
            \<lparr>timestamp = 3000, val = Num 7, status = ''ERROR''\<rparr>]"
    by (simp add: example_metrics_def)
  moreover have "itemStyle_color (series_for example_metrics ''mem'') 1 = Color ''#f5222d''"
    by (simp add: example_metrics_def series_for_def itemStyle_color_def index_def
        status_color_def statusColors_def)
  moreover have "itemStyle_color (series_for example_metrics ''mem'') 2 = Color ''#1890ff''"
    by (simp add: example_metrics_def series_for_def itemStyle_color_def index_def)
  moreover have "status_color ''WARNING'' = Color ''#faad14''"
    "status_color ''ERROR'' = Color ''#f5222d''"
    by (simp_all add: status_color_def statusColors_def)
  ultimately show ?thesis
    using chartData_example sortedTimestamps_example build_series_example by simp
qed

text \<open>
  C2: for every mapping, the builder returns one series per metric name, and the data of
  each series has one entry per position of the unified timeline. The entry at a position
  is the value of a sample of that metric whose timestamp is the timestamp of the position
  when the metric has such a sample, and the gap marker otherwise.
\<close>

theorem aligned_data:
  "\<exists>ser. build_series m = Inr ser \<and> map name ser = metricNames m
     \<and> (\<forall>j < length ser.
           length (data (ser ! j)) = length (sortedTimestamps m)
           \<and> (\<exists>values. Map_get m (name (ser ! j)) = Some values
                \<and> (\<forall>i < length (sortedTimestamps m).
                      if \<exists>s \<in> set values. timestamp s = sortedTimestamps m ! i
                      then \<exists>s \<in> set values. timestamp s = sortedTimestamps m ! i
                             \<and> data (ser ! j) ! i = Point (val s)
                      else data (ser ! j) ! i = Gap)))"
proof -
  obtain ser where ser: "build_series m = Inr ser" "map name ser = metricNames m"
    "\<And>j. j < length ser \<Longrightarrow>
       data (ser ! j) = series_data (sortedTimestamps m) (series_for m (name (ser ! j)))
       \<and> Map_get m (name (ser ! j)) = Some (series_for m (name (ser ! j)))"
    using build_series_props [of m] by blast
  have "length (data (ser ! j)) = length (sortedTimestamps m)
           \<and> (\<exists>values. Map_get m (name (ser ! j)) = Some values
                \<and> (\<forall>i < length (sortedTimestamps m).
                      if \<exists>s \<in> set values. timestamp s = sortedTimestamps m ! i
                      then \<exists>s \<in> set values. timestamp s = sortedTimestamps m ! i
                             \<and> data (ser ! j) ! i = Point (val s)
                      else data (ser ! j) ! i = Gap))"
    if j: "j < length ser" for j
  proof -
    let ?vs = "series_for m (name (ser ! j))"
    have d: "data (ser ! j) = series_data (sortedTimestamps m) ?vs"
      and g: "Map_get m (name (ser ! j)) = Some ?vs"
      using ser(3) [OF j] by simp_all
    have "if \<exists>s \<in> set ?vs. timestamp s = sortedTimestamps m ! i
          then \<exists>s \<in> set ?vs. timestamp s = sortedTimestamps m ! i
                 \<and> data (ser ! j) ! i = Point (val s)
          else data (ser ! j) ! i = Gap"
      if i: "i < length (sortedTimestamps m)" for i
    proof (cases "filter (\<lambda>s. timestamp s = sortedTimestamps m ! i) ?vs = []")
      case True
      then have "\<not> (\<exists>s \<in> set ?vs. timestamp s = sortedTimestamps m ! i)"
        by (simp add: filter_empty_conv)
      then show ?thesis using True by (simp add: d series_data_nth [OF i])
    next
      case False
      let ?l = "last (filter (\<lambda>s. timestamp s = sortedTimestamps m ! i) ?vs)"
      have "?l \<in> set (filter (\<lambda>s. timestamp s = sortedTimestamps m ! i) ?vs)"
        using False by (rule last_in_set)
      then have "?l \<in> set ?vs" "timestamp ?l = sortedTimestamps m ! i" by simp_all
      moreover have "data (ser ! j) ! i = Point (val ?l)"
        using False by (simp add: d series_data_nth [OF i])
      ultimately show ?thesis by auto
    qed
    moreover have "length (data (ser ! j)) = length (sortedTimestamps m)"
      by (simp add: d length_series_data)
    ultimately show ?thesis using g by blast
  qed
  then show ?thesis using ser(1,2) by blast
qed

text \<open>
  The statement of C2 on the mapping of the example, with the arrays it yields.
\<close>

theorem aligned_data_witness:
  "\<exists>ser. build_series example_metrics = Inr ser
     \<and> map name ser = [''cpu'', ''mem'']
     \<and> map data ser = [[Point (Num 10), Point (Num 20), Point NaN],
                        [Gap, Point (Num 5), Point (Num 7)]]
     \<and> sortedTimestamps example_metrics = [1000, 2000, 3000]
     \<and> (\<forall>j < length ser.
           length (data (ser ! j)) = length (sortedTimestamps example_metrics)
           \<and> (\<exists>values. Map_get example_metrics (name (ser ! j)) = Some values
                \<and> (\<forall>i < length (sortedTimestamps example_metrics).
                      if \<exists>s \<in> set values. timestamp s = sortedTimestamps example_metrics ! i
                      then \<exists>s \<in> set values. timestamp s = sortedTimestamps example_metrics ! i
                             \<and> data (ser ! j) ! i = Point (val s)
                      else data (ser ! j) ! i = Gap)))"
proof -
  obtain ser where ser: "build_series example_metrics = Inr ser"
    "\<forall>j < length ser.
           length (data (ser ! j)) = length (sortedTimestamps example_metrics)
           \<and> (\<exists>values. Map_get example_metrics (name (ser ! j)) = Some values
                \<and> (\<forall>i < length (sortedTimestamps example_metrics).
                      if \<exists>s \<in> set values. timestamp s = sortedTimestamps example_metrics ! i
                      then \<exists>s \<in> set values. timestamp s = sortedTimestamps example_metrics ! i
                             \<and> data (ser ! j) ! i = Point (val s)
                      else data (ser ! j) ! i = Gap))"
    using aligned_data [of example_metrics] by blast
  have names: "map name ser = [''cpu'', ''mem'']"
    and entries: "map data ser = [[Point (Num 10), Point (Num 20), Point NaN],
                                  [Gap, Point (Num 5), Point (Num 7)]]"
    using ser(1) by (auto simp: build_series_example)
  show ?thesis
    by (intro exI [of _ ser] conjI ser names entries sortedTimestamps_example)
qed

text \<open>
  C3: for every mapping, the unified timeline is sorted ascending and has no duplicates,
  its elements are the timestamps of the samples of all metrics, its length is the number
  of distinct timestamps, and it is at most the sum of the lengths of the series.
\<close>

theorem unified_timeline:
  "sorted (sortedTimestamps m)
   \<and> distinct (sortedTimestamps m)
   \<and> set (sortedTimestamps m) = timestamp ` (\<Union>p \<in> set m. set (snd p))
   \<and> length (sortedTimestamps m) = card (timestamp ` (\<Union>p \<in> set m. set (snd p)))
   \<and> length (sortedTimestamps m) \<le> sum_list (map (\<lambda>p. length (snd p)) m)"
proof -
  have "card (set (sortedTimestamps m)) = length (sortedTimestamps m)"
    by (rule distinct_card) (rule distinct_sortedTimestamps)
  then have "length (sortedTimestamps m) = card (timestamp ` (\<Union>p \<in> set m. set (snd p)))"
    by (simp add: set_sortedTimestamps)
  then show ?thesis
    using sorted_sortedTimestamps distinct_sortedTimestamps set_sortedTimestamps
      length_sortedTimestamps_le by blast
qed

text \<open>
  The statement of C3 on the mapping of the example: three distinct timestamps in five samples.
\<close>

theorem unified_timeline_witness:
  "sortedTimestamps example_metrics = [1000, 2000, 3000]
   \<and> card (timestamp ` (\<Union>p \<in> set example_metrics. set (snd p))) = 3
   \<and> set [1000, 2000, 3000] = timestamp ` (\<Union>p \<in> set example_metrics. set (snd p))
   \<and> (3::nat) \<le> sum_list (map (\<lambda>p. length (snd p)) example_metrics)"
  using unified_timeline [of example_metrics] by (simp add: sortedTimestamps_example)

text \<open>
  C4: for a non-empty input whose records have pairwise different keys, the normalizer
  returns a mapping; its keys are the names other than \<^verbatim>\<open>category\<close> that hold a reading
  object in some record; the array of each name has as many samples as there are records
  with a reading object under that name; a bare number or \<^verbatim>\<open>null\<close> under a key leaves the
  map as it is.
\<close>

theorem normalizer_metric_names:
  assumes "input \<noteq> []" and "\<forall>item \<in> set input. distinct (map fst item)"
  shows "\<exists>m. chartData parseFloat (Some input) = Inr (Some m)
           \<and> distinct (Map_keys m)
           \<and> set (Map_keys m) =
               {n. n \<noteq> ''category'' \<and> (\<exists>item \<in> set input. \<exists>r. (n, Reading r) \<in> set item)}
           \<and> (\<forall>n \<in> set (Map_keys m). \<exists>values. Map_get m n = Some values
                 \<and> length values =
                     length (filter (\<lambda>item. \<exists>r. (n, Reading r) \<in> set item) input))
           \<and> (\<forall>mm k x. add_metric parseFloat mm (k, Number x) = Inr mm)
           \<and> (\<forall>mm k. add_metric parseFloat mm (k, Null) = Inr mm)"
proof -
  obtain m where m: "chartData parseFloat (Some input) = Inr (Some m)"
    "distinct (map fst m)"
    "\<And>n. Map_get m n =
        (if readings_of input n = [] then None
         else Some (sort_key timestamp (map (to_sample parseFloat) (readings_of input n))))"
    using chartData_normalized [OF assms(1)] by blast
  have keys: "n \<in> set (Map_keys m) \<longleftrightarrow> readings_of input n \<noteq> []" for n
    using Map_get_None_iff [of m n] m(3) [of n] by (auto simp: Map_keys_def split: if_splits)
  have nonempty: "readings_of input n \<noteq> [] \<longleftrightarrow>
      n \<noteq> ''category'' \<and> (\<exists>item \<in> set input. \<exists>r. (n, Reading r) \<in> set item)" for n
  proof -
    have "readings_of input n \<noteq> [] \<longleftrightarrow> set (readings_of input n) \<noteq> {}" by simp
    also have "\<dots> \<longleftrightarrow> n \<noteq> ''category'' \<and> (\<exists>item \<in> set input. \<exists>r. (n, Reading r) \<in> set item)"
      unfolding readings_of_set by blast
    finally show ?thesis .
  qed
  have names: "set (Map_keys m) =
      {n. n \<noteq> ''category'' \<and> (\<exists>item \<in> set input. \<exists>r. (n, Reading r) \<in> set item)}"
    using keys nonempty by blast
  have counts: "\<exists>values. Map_get m n = Some values
      \<and> length values = length (filter (\<lambda>item. \<exists>r. (n, Reading r) \<in> set item) input)"
    if "n \<in> set (Map_keys m)" for n
  proof -
    from that have ne: "readings_of input n \<noteq> []" and nc: "n \<noteq> ''category''"
      using keys nonempty by blast+
    show ?thesis
      using m(3) [of n] ne readings_of_length [OF assms(2) nc] by simp
  qed
  have skip1: "\<forall>mm k x. add_metric parseFloat mm (k, Number x) = Inr mm"
    by (simp add: add_metric_def)
  have skip2: "\<forall>mm k. add_metric parseFloat mm (k, Null) = Inr mm"
    by (simp add: add_metric_def)
  show ?thesis
    using m(1) m(2) names counts skip1 skip2 unfolding Map_keys_def by blast
qed

text \<open>
  The statement of C4 on the example input, whose mapping has the metrics \<^verbatim>\<open>cpu\<close> and
  \<^verbatim>\<open>mem\<close> and not the bare number \<^verbatim>\<open>load\<close>.
\<close>

theorem normalizer_metric_names_witness:
  "example_input \<noteq> []
   \<and> map (\<lambda>item. distinct (map fst item)) example_input = [True, True, True]
   \<and> (\<exists>m. chartData example_parseFloat (Some example_input) = Inr (Some m)
           \<and> m = example_metrics
           \<and> distinct (Map_keys m)
           \<and> set (Map_keys m) =
               {n. n \<noteq> ''category''
                   \<and> (\<exists>item \<in> set example_input. \<exists>r. (n, Reading r) \<in> set item)}
           \<and> (\<forall>n \<in> set (Map_keys m). \<exists>values. Map_get m n = Some values
                 \<and> length values =
                     length (filter (\<lambda>item. \<exists>r. (n, Reading r) \<in> set item) example_input))
           \<and> (\<forall>mm k x. add_metric example_parseFloat mm (k, Number x) = Inr mm)
           \<and> (\<forall>mm k. add_metric example_parseFloat mm (k, Null) = Inr mm))"
proof -
  have h1: "example_input \<noteq> []"
    by (simp add: example_input_def)
  have h2: "\<forall>item \<in> set example_input. distinct (map fst item)"
    by (simp add: example_input_def)
  have h2': "map (\<lambda>item. distinct (map fst item)) example_input = [True, True, True]"
    by (simp add: example_input_def)
  from normalizer_metric_names [OF h1 h2, of example_parseFloat]
  have "\<exists>m. chartData example_parseFloat (Some example_input) = Inr (Some m)
           \<and> m = example_metrics
           \<and> distinct (Map_keys m)
           \<and> set (Map_keys m) =
               {n. n \<noteq> ''category''
                   \<and> (\<exists>item \<in> set example_input. \<exists>r. (n, Reading r) \<in> set item)}
           \<and> (\<forall>n \<in> set (Map_keys m). \<exists>values. Map_get m n = Some values
                 \<and> length values =
                     length (filter (\<lambda>item. \<exists>r. (n, Reading r) \<in> set item) example_input))
           \<and> (\<forall>mm k x. add_metric example_parseFloat mm (k, Number x) = Inr mm)
           \<and> (\<forall>mm k. add_metric example_parseFloat mm (k, Null) = Inr mm)"
    unfolding chartData_example by simp
  with h1 h2' show ?thesis by (intro conjI)
qed

text \<open>
  C5: for a non-empty input, the array of every metric of the normalizer's mapping is sorted
  by timestamp, holds the samples that arrived for the metric, each as often as it arrived,
  and the samples of one timestamp are in it in the order of their arrival.
\<close>

theorem series_sorted_stable:
  assumes "input \<noteq> []"
  shows "\<exists>m. chartData parseFloat (Some input) = Inr (Some m)
           \<and> (\<forall>n \<in> set (Map_keys m). \<exists>values. Map_get m n = Some values
                 \<and> sorted (map timestamp values)
                 \<and> mset values = mset (map (to_sample parseFloat) (readings_of input n))
                 \<and> (\<forall>t. filter (\<lambda>s. timestamp s = t) values
                        = filter (\<lambda>s. timestamp s = t)
                            (map (to_sample parseFloat) (readings_of input n))))"
proof -
  obtain m where m: "chartData parseFloat (Some input) = Inr (Some m)"
    "\<And>n. Map_get m n =
        (if readings_of input n = [] then None
         else Some (sort_key timestamp (map (to_sample parseFloat) (readings_of input n))))"
    using chartData_normalized [OF assms(1)] by blast
  have "\<exists>values. Map_get m n = Some values
          \<and> sorted (map timestamp values)
          \<and> mset values = mset (map (to_sample parseFloat) (readings_of input n))
          \<and> (\<forall>t. filter (\<lambda>s. timestamp s = t) values
                 = filter (\<lambda>s. timestamp s = t)
                     (map (to_sample parseFloat) (readings_of input n)))"
    if "n \<in> set (Map_keys m)" for n
  proof -
    from that have "Map_get m n \<noteq> None"
      by (simp add: Map_get_None_iff Map_keys_def)
    then have "Map_get m n =
        Some (sort_key timestamp (map (to_sample parseFloat) (readings_of input n)))"
      using m(2) [of n] by (simp split: if_splits)
    then show ?thesis
      by (simp add: sort_key_stable)
  qed
  then show ?thesis using m(1) by blast
qed

text \<open>
  The statement of C5 on three records that arrive out of order, two of them with the same
  timestamp: the array is sorted and the two keep their order of arrival.
\<close>

theorem series_sorted_stable_witness:
  "duplicate_input \<noteq> []
   \<and> map (to_sample example_parseFloat) (readings_of duplicate_input ''cpu'')
       = [\<lparr>timestamp = 2000, val = Num 5, status = ''GOOD''\<rparr>,
          \<lparr>timestamp = 1000, val = Num 10, status = ''GOOD''\<rparr>,
          \<lparr>timestamp = 1000, val = Num 20, status = ''ERROR''\<rparr>]
   \<and> (\<exists>m. chartData example_parseFloat (Some duplicate_input) = Inr (Some m)
           \<and> m = [(''cpu'', [\<lparr>timestamp = 1000, val = Num 10, status = ''GOOD''\<rparr>,
                             \<lparr>timestamp = 1000, val = Num 20, status = ''ERROR''\<rparr>,
                             \<lparr>timestamp = 2000, val = Num 5, status = ''GOOD''\<rparr>])]
           \<and> (\<forall>n \<in> set (Map_keys m). \<exists>values. Map_get m n = Some values
                 \<and> sorted (map timestamp values)
                 \<and> mset values = mset (map (to_sample example_parseFloat) (readings_of duplicate_input n))
                 \<and> (\<forall>t. filter (\<lambda>s. timestamp s = t) values
                        = filter (\<lambda>s. timestamp s = t)
                            (map (to_sample example_parseFloat) (readings_of duplicate_input n)))))"
proof -
  have h1: "duplicate_input \<noteq> []"
    by (simp add: duplicate_input_def)
  have arrival: "map (to_sample example_parseFloat) (readings_of duplicate_input ''cpu'')
       = [\<lparr>timestamp = 2000, val = Num 5, status = ''GOOD''\<rparr>,
          \<lparr>timestamp = 1000, val = Num 10, status = ''GOOD''\<rparr>,
          \<lparr>timestamp = 1000, val = Num 20, status = ''ERROR''\<rparr>]"
    by (simp add: readings_of_duplicate to_sample_def example_parseFloat_def)
  have m: "duplicate_metrics =
       [(''cpu'', [\<lparr>timestamp = 1000, val = Num 10, status = ''GOOD''\<rparr>,
                   \<lparr>timestamp = 1000, val = Num 20, status = ''ERROR''\<rparr>,
                   \<lparr>timestamp = 2000, val = Num 5, status = ''GOOD''\<rparr>])]"
    by (simp add: duplicate_metrics_def duplicate_series_def)
  from series_sorted_stable [OF h1, of example_parseFloat]
  have "\<exists>m. chartData example_parseFloat (Some duplicate_input) = Inr (Some m)
           \<and> m = [(''cpu'', [\<lparr>timestamp = 1000, val = Num 10, status = ''GOOD''\<rparr>,
                             \<lparr>timestamp = 1000, val = Num 20, status = ''ERROR''\<rparr>,
                             \<lparr>timestamp = 2000, val = Num 5, status = ''GOOD''\<rparr>])]
           \<and> (\<forall>n \<in> set (Map_keys m). \<exists>values. Map_get m n = Some values
                 \<and> sorted (map timestamp values)
                 \<and> mset values = mset (map (to_sample example_parseFloat) (readings_of duplicate_input n))
                 \<and> (\<forall>t. filter (\<lambda>s. timestamp s = t) values
                        = filter (\<lambda>s. timestamp s = t)
                            (map (to_sample example_parseFloat) (readings_of duplicate_input n))))"
    unfolding chartData_duplicate m by simp
  with h1 arrival show ?thesis by (intro conjI)
qed

text \<open>
  C6: when the formatter receives one item per series, in the order of the series, for the
  position \<open>i\<close> of the timeline, the tooltip is the formatted date of the timestamp at
  \<open>i\<close>, a line break, and then, for each metric in turn, nothing when the metric has no
  sample with that timestamp, and otherwise one line with the marker, the name of the
  metric, the value and the status of the first such sample.
\<close>

theorem tooltip_content:
  assumes "map seriesName ps = metricNames m"
    and "dataIndex (hd ps) = i" and "i < length (sortedTimestamps m)"
  shows "formatter h m (ParamArray ps) =
     Inr (dateTimeString h (sortedTimestamps m ! i) @ ''<br/>''
          @ concat (map (\<lambda>p. case filter (\<lambda>s. timestamp s = sortedTimestamps m ! i)
                                      (series_for m (seriesName p)) of
                                 [] \<Rightarrow> []
                               | s # rest \<Rightarrow>
                                   marker p @ '' '' @ seriesName p @ '': ''
                                     @ numberString h (val s) @ '' ('' @ status s @ '')<br/>'') ps))"
proof -
  have "m \<noteq> []" using assms(3) by (auto simp: sortedTimestamps_Nil)
  then have "metricNames m \<noteq> []" by (simp add: metricNames_def Map_keys_def)
  then have ne: "ps \<noteq> []" using assms(1) by auto
  have "seriesName p \<in> set (map fst m)" if "p \<in> set ps" for p
  proof -
    from that have "seriesName p \<in> set (map seriesName ps)" by simp
    then show ?thesis by (simp only: assms(1) metricNames_def Map_keys_def)
  qed
  then have names: "\<forall>p \<in> set ps. Map_get m (seriesName p) \<noteq> None"
    by (simp only: Map_get_None_iff not_not) blast
  have idx: "dataIndex (hd ps) < length (sortedTimestamps m)"
    using assms(2,3) by simp
  show ?thesis
    using formatter_eq [OF ne names idx, of h]
    by (simp add: assms(2) tooltip_line_def cong: list.case_cong)
qed

text \<open>
  The statement of C6 on the mapping of the example at the first position, where
  \<^verbatim>\<open>cpu\<close> has a sample and \<^verbatim>\<open>mem\<close> has none.
\<close>

theorem tooltip_content_witness:
  "formatter example_host example_metrics
     (ParamArray [\<lparr>seriesName = ''cpu'', marker = ''o'', dataIndex = 0\<rparr>,
                  \<lparr>seriesName = ''mem'', marker = ''x'', dataIndex = 0\<rparr>])
   = Inr ''1970/01/01 00:00:01<br/>o cpu: 10 (GOOD)<br/>''"
proof -
  let ?ps = "[\<lparr>seriesName = ''cpu'', marker = ''o'', dataIndex = 0\<rparr>,
              \<lparr>seriesName = ''mem'', marker = ''x'', dataIndex = 0\<rparr>]"
  have h2: "map seriesName ?ps = metricNames example_metrics"
    by (simp add: metricNames_example)
  have h3: "dataIndex (hd ?ps) = 0" by simp
  have h4: "0 < length (sortedTimestamps example_metrics)"
    by (simp add: sortedTimestamps_example)
  have ts0: "sortedTimestamps example_metrics ! 0 = 1000"
    by (simp add: sortedTimestamps_example)
  have cpu: "filter (\<lambda>s. timestamp s = 1000) (series_for example_metrics ''cpu'')
      = [\<lparr>timestamp = 1000, val = Num 10, status = ''GOOD''\<rparr>]"
    by (simp add: series_for_def example_metrics_def)
  have mem: "filter (\<lambda>s. timestamp s = 1000) (series_for example_metrics ''mem'') = []"
    by (simp add: series_for_def example_metrics_def)
  have "formatter example_host example_metrics (ParamArray ?ps) =
     Inr (dateTimeString example_host 1000 @ ''<br/>''
          @ ''o'' @ '' '' @ ''cpu'' @ '': '' @ numberString example_host (Num 10)
          @ '' ('' @ ''GOOD'' @ '')<br/>'')"
    using tooltip_content [OF h2 h3 h4, of example_host]
    by (simp add: ts0 cpu mem)
  then show ?thesis
    by (simp add: example_host_def)
qed

text \<open>
  C7: for an absent or empty input the memo returns \<^verbatim>\<open>null\<close> without an exception, the
  effect returns before it builds an option and leaves the chart instance as it is, and the
  component shows the placeholder.
\<close>

theorem empty_input_no_data:
  assumes "input = None \<or> input = Some []"
  shows "\<exists>cd. chartData parseFloat input = Inr cd \<and> cd = None
           \<and> chart_effect h mounted cd inst = Inr (inst, None)
           \<and> LineChart_view cd = NoDataAvailable"
  using chartData_empty [OF assms] by (simp add: chart_effect_None LineChart_view_def)

text \<open>
  The statement of C7 on the empty array and on the absent input.
\<close>

theorem empty_input_no_data_witness:
  "(\<exists>cd. chartData example_parseFloat (Some []) = Inr cd \<and> cd = None
           \<and> chart_effect example_host True cd None = Inr (None, None)
           \<and> LineChart_view cd = NoDataAvailable)
   \<and> (\<exists>cd. chartData example_parseFloat None = Inr cd \<and> cd = None
           \<and> chart_effect example_host True cd None = Inr (None, None)
           \<and> LineChart_view cd = NoDataAvailable)"
proof -
  have h1: "Some [] = None \<or> Some [] = Some ([] :: dataPoint list)" by simp
  have h2: "None = None \<or> None = Some ([] :: dataPoint list)" by simp
  show ?thesis
    using empty_input_no_data [OF h1, of example_parseFloat example_host True None]
      empty_input_no_data [OF h2, of example_parseFloat example_host True None]
    by blast
qed

text \<open>
  C8: for every input, absent, empty or not, the memo returns without an exception and so
  does the effect, whatever the state of the chart; when the memo returns a mapping the
  builder returns an option with one series per metric, and each entry of the aligned data
  is decided by the readings of that metric with the timestamp of that position alone: a
  gap when there are none, and otherwise the result of \<^verbatim>\<open>parseFloat\<close> on the value of the
  last of them, whatever that result is. A value that parses to \<open>NaN\<close> thus yields the
  entry \<open>Point NaN\<close> there and changes no other entry.
\<close>

theorem pipeline_total:
  "\<exists>cd. chartData parseFloat input = Inr cd
     \<and> (\<forall>mounted inst. \<exists>out. chart_effect h mounted cd inst = Inr out)
     \<and> (\<forall>m. cd = Some m \<longrightarrow>
          (\<exists>opt. build_option h m = Inr opt
             \<and> map name (series_list opt) = metricNames m
             \<and> (\<forall>ps. set (map seriesName ps) \<subseteq> set (metricNames m) \<longrightarrow>
                    (\<exists>s. tooltip_formatter opt (ParamArray ps) = Inr s))
             \<and> (\<forall>records. input = Some records \<longrightarrow>
                  (\<forall>j < length (series_list opt). \<forall>i < length (sortedTimestamps m).
                     data (series_list opt ! j) ! i =
                       (case filter (\<lambda>r. rtimestamp r = sortedTimestamps m ! i)
                               (readings_of records (name (series_list opt ! j))) of
                          [] \<Rightarrow> Gap
                        | r # rest \<Rightarrow> Point (parseFloat (rvalue (last (r # rest)))))))))"
proof (cases "input = None \<or> input = Some []")
  case True
  then have "chartData parseFloat input = Inr None"
    by (rule chartData_empty)
  then show ?thesis by (simp add: chart_effect_None)
next
  case False
  then obtain records where input: "input = Some records" and ne: "records \<noteq> []"
    by (cases input) auto
  obtain m where m: "chartData parseFloat (Some records) = Inr (Some m)"
    "\<And>n. Map_get m n =
        (if readings_of records n = [] then None
         else Some (sort_key timestamp (map (to_sample parseFloat) (readings_of records n))))"
    using chartData_normalized [OF ne] by blast
  obtain ser where ser: "build_series m = Inr ser" "map name ser = metricNames m"
    "\<And>j. j < length ser \<Longrightarrow>
       data (ser ! j) = series_data (sortedTimestamps m) (series_for m (name (ser ! j)))
       \<and> Map_get m (name (ser ! j)) = Some (series_for m (name (ser ! j)))"
    using build_series_props [of m] by blast
  let ?opt = "\<lparr>tooltip_formatter = formatter h m, legend_data = metricNames m,
          xAxis_data = map (axisString h) (sortedTimestamps m), series_list = ser\<rparr>"
  have opt: "build_option h m = Inr ?opt"
    by (rule build_option_eq [OF ser(1)])
  have entries: "data (ser ! j) ! i =
       (case filter (\<lambda>r. rtimestamp r = sortedTimestamps m ! i)
               (readings_of records (name (ser ! j))) of
          [] \<Rightarrow> Gap
        | r # rest \<Rightarrow> Point (parseFloat (rvalue (last (r # rest)))))"
    if j: "j < length ser" and i: "i < length (sortedTimestamps m)" for i j
  proof -
    let ?n = "name (ser ! j)"
    have "Map_get m ?n = Some (series_for m ?n)" using ser(3) [OF j] by simp
    then have "series_for m ?n =
        sort_key timestamp (map (to_sample parseFloat) (readings_of records ?n))"
      using m(2) [of ?n] by (simp split: if_splits)
    then have "data (ser ! j) = series_data (sortedTimestamps m)
        (sort_key timestamp (map (to_sample parseFloat) (readings_of records ?n)))"
      using ser(3) [OF j] by simp
    then show ?thesis by (simp only: entry_of_readings [OF i])
  qed
  have tooltip: "\<exists>s. formatter h m (ParamArray ps) = Inr s"
    if "set (map seriesName ps) \<subseteq> set (metricNames m)" for ps
  proof -
    have "seriesName p \<in> set (map fst m)" if "p \<in> set ps" for p
    proof -
      from that have "seriesName p \<in> set (map seriesName ps)" by simp
      then have "seriesName p \<in> set (metricNames m)"
        using \<open>set (map seriesName ps) \<subseteq> set (metricNames m)\<close> by blast
      then show ?thesis by (simp only: metricNames_def Map_keys_def)
    qed
    then have "\<forall>p \<in> set ps. Map_get m (seriesName p) \<noteq> None"
      by (simp only: Map_get_None_iff not_not) blast
    then show ?thesis by (rule formatter_total)
  qed
  have "\<exists>out. chart_effect h mounted (Some m) inst = Inr out" for mounted inst
    by (simp add: chart_effect_Some [OF opt])
  then show ?thesis
    using m(1) opt ser(2) entries tooltip by (simp add: input)
qed

text \<open>
  The statement of C8 on the example input, where the value \<^verbatim>\<open>abc\<close> of \<^verbatim>\<open>cpu\<close> at the
  timestamp 3000 parses to \<open>NaN\<close>.
\<close>

theorem pipeline_total_witness:
  "\<exists>opt. chartData example_parseFloat (Some example_input) = Inr (Some example_metrics)
     \<and> build_option example_host example_metrics = Inr opt
     \<and> map name (series_list opt) = [''cpu'', ''mem'']
     \<and> data (series_list opt ! 0) ! 2 = Point NaN
     \<and> data (series_list opt ! 0) ! 1 = Point (Num 20)
     \<and> data (series_list opt ! 1) ! 2 = Point (Num 7)
     \<and> data (series_list opt ! 1) ! 0 = Gap"
proof -
  from pipeline_total [of example_parseFloat "Some example_input" example_host]
  obtain opt where opt: "build_option example_host example_metrics = Inr opt"
    "map name (series_list opt) = metricNames example_metrics"
    "\<And>i j. j < length (series_list opt) \<Longrightarrow> i < length (sortedTimestamps example_metrics) \<Longrightarrow>
       data (series_list opt ! j) ! i =
         (case filter (\<lambda>r. rtimestamp r = sortedTimestamps example_metrics ! i)
                 (readings_of example_input (name (series_list opt ! j))) of
            [] \<Rightarrow> Gap
          | r # rest \<Rightarrow> Point (example_parseFloat (rvalue (last (r # rest)))))"
    by (auto simp: chartData_example)
  have names: "map name (series_list opt) = [''cpu'', ''mem'']"
    using opt(2) by (simp add: metricNames_example)
  then have len: "length (series_list opt) = 2"
    by (metis length_map length_Cons list.size(3) numeral_2_eq_2)
  have n0: "name (series_list opt ! 0) = ''cpu''"
    using names nth_map [of 0 "series_list opt" name] by (simp add: len)
  have n1: "name (series_list opt ! 1) = ''mem''"
    using names nth_map [of 1 "series_list opt" name] by (simp add: len)
  have j0: "0 < length (series_list opt)" and j1: "1 < length (series_list opt)"
    by (simp_all add: len)
  have i0: "0 < length (sortedTimestamps example_metrics)"
    and i1: "1 < length (sortedTimestamps example_metrics)"
    and i2: "2 < length (sortedTimestamps example_metrics)"
    by (simp_all add: sortedTimestamps_example)
  have e1: "data (series_list opt ! 0) ! 2 = Point NaN"
    unfolding opt(3) [OF j0 i2] n0 readings_of_example_cpu sortedTimestamps_example
    by (simp add: example_parseFloat_def)
  have e2: "data (series_list opt ! 0) ! 1 = Point (Num 20)"
    unfolding opt(3) [OF j0 i1] n0 readings_of_example_cpu sortedTimestamps_example
    by (simp add: example_parseFloat_def)
  have e3: "data (series_list opt ! 1) ! 2 = Point (Num 7)"
    unfolding opt(3) [OF j1 i2] n1 readings_of_example_mem sortedTimestamps_example
    by (simp add: example_parseFloat_def)
  have e4: "data (series_list opt ! 1) ! 0 = Gap"
    unfolding opt(3) [OF j1 i0] n1 readings_of_example_mem sortedTimestamps_example
    by simp
  show ?thesis
    by (intro exI [of _ opt] conjI chartData_example opt(1) names e1 e2 e3 e4)
qed

text \<open>
  C9: two invocations of the memo on the same input, the second on the store that the first
  has left, whatever the store of the first was. Both return without an exception; the
  mapping that the second returns, read in the last store, is the mapping that the first
  returned, read in its own store, and is what the memo on values gives; the second run has
  left the \<^verbatim>\<open>Map\<close> and the arrays of the first as they were, and its own \<^verbatim>\<open>Map\<close> is another
  object. Hence the unified timelines are the same and the options are the same, and the
  effect hands over the same option after either run, whatever the state of the chart
  instance.
\<close>

theorem two_invocations_equal:
  "\<exists>s1 r1 s2 r2 cd1 cd2.
      chartData_st parseFloat input s = Inr (s1, r1)
    \<and> read_chartData s1 r1 = Inr cd1
    \<and> chartData_st parseFloat input s1 = Inr (s2, r2)
    \<and> read_chartData s2 r2 = Inr cd2
    \<and> cd1 = cd2
    \<and> read_chartData s2 r1 = Inr cd1
    \<and> chartData parseFloat input = Inr cd1
    \<and> map_option sortedTimestamps cd1 = map_option sortedTimestamps cd2
    \<and> map_option (build_option h) cd1 = map_option (build_option h) cd2
    \<and> (\<forall>inst1 inst2. \<exists>out1 out2.
           chart_effect_st h True s1 r1 inst1 = Inr out1
         \<and> chart_effect_st h True s2 r2 inst2 = Inr out2
         \<and> snd out1 = snd out2
         \<and> (\<forall>m. cd1 = Some m \<longrightarrow> (\<exists>opt. build_option h m = Inr opt \<and> snd out1 = Some opt)))
    \<and> (\<forall>mp1 mp2. r1 = Some mp1 \<longrightarrow> r2 = Some mp2 \<longrightarrow> mp1 \<noteq> mp2)"
proof -
  from chartData_st_run [of parseFloat input s]
  obtain s1 r1 cd where 1: "chartData_st parseFloat input s = Inr (s1, r1)"
    "chartData parseFloat input = Inr cd"
    "r1 = None \<and> cd = None
       \<or> (\<exists>mp m. r1 = Some mp \<and> cd = Some m \<and> represents (next_addr s) s1 mp m)"
    by blast
  from chartData_st_run [of parseFloat input s1]
  obtain s2 r2 cd' where 2: "chartData_st parseFloat input s1 = Inr (s2, r2)"
    "chartData parseFloat input = Inr cd'"
    "unchanged_below (next_addr s1) s1 s2"
    "r2 = None \<and> cd' = None
       \<or> (\<exists>mp m. r2 = Some mp \<and> cd' = Some m \<and> represents (next_addr s1) s2 mp m)"
    by blast
  have same: "cd' = cd" using 1(2) 2(2) by simp
  have read1: "read_chartData s1 r1 = Inr cd"
    using 1(3) by (auto simp: read_chartData_None read_represented)
  have read2: "read_chartData s2 r2 = Inr cd"
    using 2(4) by (auto simp: same read_chartData_None read_represented)
  have read12: "read_chartData s2 r1 = Inr cd"
    using 1(3)
  proof
    assume "r1 = None \<and> cd = None"
    then show ?thesis by (simp add: read_chartData_None)
  next
    assume "\<exists>mp m. r1 = Some mp \<and> cd = Some m \<and> represents (next_addr s) s1 mp m"
    then obtain mp m where r: "r1 = Some mp" "cd = Some m" "represents (next_addr s) s1 mp m"
      by blast
    have "represents (next_addr s) s2 mp m"
      by (rule represents_unchanged [OF r(3) 2(3)])
    then show ?thesis by (simp add: r(1,2) read_represented)
  qed
  have apart: "mp1 \<noteq> mp2" if "r1 = Some mp1" "r2 = Some mp2" for mp1 mp2
  proof -
    from 1(3) that(1) obtain m1 where "represents (next_addr s) s1 mp1 m1" by auto
    from representsD [OF this] have "mp1 < next_addr s1" by blast
    moreover from 2(4) that(2) obtain m2 where "represents (next_addr s1) s2 mp2 m2" by auto
    from representsD [OF this] have "next_addr s1 \<le> mp2" by blast
    ultimately show ?thesis by simp
  qed
  have effects: "\<exists>out1 out2.
           chart_effect_st h True s1 r1 inst1 = Inr out1
         \<and> chart_effect_st h True s2 r2 inst2 = Inr out2
         \<and> snd out1 = snd out2
         \<and> (\<forall>m. cd = Some m \<longrightarrow> (\<exists>opt. build_option h m = Inr opt \<and> snd out1 = Some opt))"
    for inst1 inst2
  proof (cases cd)
    case None
    then show ?thesis
      by (simp add: chart_effect_st_read [OF read1] chart_effect_st_read [OF read2]
          chart_effect_None)
  next
    case (Some m)
    obtain opt where opt: "build_option h m = Inr opt"
      using build_option_total by blast
    show ?thesis
      by (simp add: chart_effect_st_read [OF read1] chart_effect_st_read [OF read2] Some
          chart_effect_Some [OF opt] opt)
  qed
  show ?thesis
    using 1(1,2) 2(1) read1 read2 read12 effects apart by blast
qed

text \<open>
  The statement of C9 on the example input, the first run on the empty store.
\<close>

theorem two_invocations_equal_witness:
  "\<exists>s1 r1 s2 r2.
      chartData_st example_parseFloat (Some example_input) empty_store = Inr (s1, r1)
    \<and> read_chartData s1 r1 = Inr (Some example_metrics)
    \<and> chartData_st example_parseFloat (Some example_input) s1 = Inr (s2, r2)
    \<and> read_chartData s2 r2 = Inr (Some example_metrics)
    \<and> read_chartData s2 r1 = Inr (Some example_metrics)
    \<and> r1 \<noteq> None \<and> r2 \<noteq> None \<and> r1 \<noteq> r2"
proof -
  from two_invocations_equal [of example_parseFloat "Some example_input" empty_store example_host]
  obtain s1 r1 s2 r2 where run:
    "chartData_st example_parseFloat (Some example_input) empty_store = Inr (s1, r1)"
    "read_chartData s1 r1 = Inr (Some example_metrics)"
    "chartData_st example_parseFloat (Some example_input) s1 = Inr (s2, r2)"
    "read_chartData s2 r2 = Inr (Some example_metrics)"
    "read_chartData s2 r1 = Inr (Some example_metrics)"
    "\<forall>mp1 mp2. r1 = Some mp1 \<longrightarrow> r2 = Some mp2 \<longrightarrow> mp1 \<noteq> mp2"
    unfolding chartData_example by auto
  have r1: "r1 \<noteq> None"
  proof
    assume "r1 = None"
    with run(2) show False by (simp add: read_chartData_None)
  qed
  have r2: "r2 \<noteq> None"
  proof
    assume "r2 = None"
    with run(4) show False by (simp add: read_chartData_None)
  qed
  have apart: "r1 \<noteq> r2" using r1 r2 run(6) by auto
  show ?thesis
    by (intro exI [of _ s1] exI [of _ r1] exI [of _ s2] exI [of _ r2] conjI run(1-5) r1 r2 apart)
qed

text \<open>
  C10: let a metric of the mapping have a sample \<open>s0\<close>, and let \<open>dups\<close> be the samples of
  its array with the timestamp of \<open>s0\<close>. The timeline has exactly one position with that
  timestamp; the aligned data of the metric holds there the value of the last element of
  \<open>dups\<close>; the loop body of the tooltip appends, for an item of that metric, the line of the
  first element of \<open>dups\<close>, and so does the formatter on an array with one such item.
\<close>

theorem duplicate_timestamps:
  assumes "Map_get m n = Some values" and "s0 \<in> set values"
  shows "let dups = filter (\<lambda>s. timestamp s = timestamp s0) values
         in \<exists>i ser. i < length (sortedTimestamps m)
              \<and> sortedTimestamps m ! i = timestamp s0
              \<and> (\<forall>i' < length (sortedTimestamps m).
                     sortedTimestamps m ! i' = timestamp s0 \<longrightarrow> i' = i)
              \<and> build_series m = Inr ser
              \<and> (\<exists>j < length ser. name (ser ! j) = n)
              \<and> (\<forall>j < length ser. name (ser ! j) = n \<longrightarrow>
                     data (ser ! j) ! i = Point (val (last dups)))
              \<and> (\<forall>result p. seriesName p = n \<longrightarrow>
                     add_line h m (Some (timestamp s0)) result p =
                       Inr (result @ marker p @ '' '' @ n @ '': ''
                              @ numberString h (val (hd dups)) @ '' ('' @ status (hd dups)
                              @ '')<br/>''))
              \<and> formatter h m (ParamArray [\<lparr>seriesName = n, marker = mk, dataIndex = i\<rparr>]) =
                   Inr (dateTimeString h (timestamp s0) @ ''<br/>'' @ mk @ '' '' @ n @ '': ''
                          @ numberString h (val (hd dups)) @ '' ('' @ status (hd dups)
                          @ '')<br/>'')"
proof -
  let ?ts = "sortedTimestamps m"
  let ?dups = "filter (\<lambda>s. timestamp s = timestamp s0) values"
  have sf: "series_for m n = values" by (simp add: series_for_def assms(1))
  have dups: "?dups \<noteq> []" using assms(2) by (auto simp: filter_empty_conv)
  then obtain d rest where d: "?dups = d # rest" by (cases ?dups) auto
  obtain i where i: "i < length ?ts" "?ts ! i = timestamp s0"
    "\<forall>i' < length ?ts. ?ts ! i' = timestamp s0 \<longrightarrow> i' = i"
    using index_of_timestamp [OF assms] by blast
  obtain ser where ser: "build_series m = Inr ser" "map name ser = metricNames m"
    "\<And>j. j < length ser \<Longrightarrow>
       data (ser ! j) = series_data ?ts (series_for m (name (ser ! j)))"
    using build_series_props [of m] by blast
  have "n \<in> set (map fst m)"
    using assms(1) Map_get_None_iff [of m n] by auto
  then have "n \<in> set (map name ser)"
    by (simp only: ser(2) metricNames_def Map_keys_def)
  then have ex: "\<exists>j < length ser. name (ser ! j) = n"
    by (auto simp: in_set_conv_nth)
  have entry: "\<forall>j < length ser. name (ser ! j) = n \<longrightarrow>
      data (ser ! j) ! i = Point (val (last ?dups))"
    using ser(3) dups by (simp add: sf series_data_nth [OF i(1)] i(2))
  have line: "\<forall>result p. seriesName p = n \<longrightarrow>
      add_line h m (Some (timestamp s0)) result p =
        Inr (result @ marker p @ '' '' @ n @ '': ''
               @ numberString h (val (hd ?dups)) @ '' ('' @ status (hd ?dups) @ '')<br/>'')"
    using assms(1) by (auto simp: add_line_eq d tooltip_line_def)
  let ?p = "\<lparr>seriesName = n, marker = mk, dataIndex = i\<rparr>"
  have "formatter h m (ParamArray [?p]) =
      Inr (dateTimeString h (?ts ! i) @ ''<br/>''
           @ concat (map (\<lambda>p. case filter (\<lambda>s. timestamp s = ?ts ! dataIndex (hd [?p]))
                                      (series_for m (seriesName p)) of
                                 [] \<Rightarrow> [] | s # rest \<Rightarrow> tooltip_line h p s) [?p]))"
    using formatter_eq [of "[?p]" m h] assms(1) i(1) by simp
  then have fmt: "formatter h m (ParamArray [?p]) =
      Inr (dateTimeString h (timestamp s0) @ ''<br/>'' @ mk @ '' '' @ n @ '': ''
             @ numberString h (val (hd ?dups)) @ '' ('' @ status (hd ?dups) @ '')<br/>'')"
    by (simp add: sf i(2) d tooltip_line_def)
  show ?thesis
    unfolding Let_def using i ser(1) ex entry line fmt by blast
qed

text \<open>
  The statement of C10 on a metric with two samples at the timestamp 1000: the aligned data
  holds the value of the second, the tooltip shows the first.
\<close>

theorem duplicate_timestamps_witness:
  "chartData example_parseFloat (Some duplicate_input) = Inr (Some duplicate_metrics)
   \<and> Map_get duplicate_metrics ''cpu'' = Some duplicate_series
   \<and> hd duplicate_series \<in> set duplicate_series
   \<and> filter (\<lambda>s. timestamp s = timestamp (hd duplicate_series)) duplicate_series
       = [\<lparr>timestamp = 1000, val = Num 10, status = ''GOOD''\<rparr>,
          \<lparr>timestamp = 1000, val = Num 20, status = ''ERROR''\<rparr>]
   \<and> build_series duplicate_metrics =
         Inr [\<lparr>name = ''cpu'', data = [Point (Num 20), Point (Num 5)],
               color = itemStyle_color (series_for duplicate_metrics ''cpu'')\<rparr>]
   \<and> formatter example_host duplicate_metrics
         (ParamArray [\<lparr>seriesName = ''cpu'', marker = ''o'', dataIndex = 0\<rparr>])
       = Inr ''1970/01/01 00:00:01<br/>o cpu: 10 (GOOD)<br/>''
   \<and> (let dups = filter (\<lambda>s. timestamp s = timestamp (hd duplicate_series)) duplicate_series
         in \<exists>i ser. i < length (sortedTimestamps duplicate_metrics)
              \<and> sortedTimestamps duplicate_metrics ! i = timestamp (hd duplicate_series)
              \<and> (\<forall>i' < length (sortedTimestamps duplicate_metrics).
                     sortedTimestamps duplicate_metrics ! i' = timestamp (hd duplicate_series)
                       \<longrightarrow> i' = i)
              \<and> build_series duplicate_metrics = Inr ser
              \<and> (\<exists>j < length ser. name (ser ! j) = ''cpu'')
              \<and> (\<forall>j < length ser. name (ser ! j) = ''cpu'' \<longrightarrow>
                     data (ser ! j) ! i = Point (val (last dups)))
              \<and> (\<forall>result p. seriesName p = ''cpu'' \<longrightarrow>
                     add_line example_host duplicate_metrics
                         (Some (timestamp (hd duplicate_series))) result p =
                       Inr (result @ marker p @ '' '' @ ''cpu'' @ '': ''
                              @ numberString example_host (val (hd dups)) @ '' (''
                              @ status (hd dups) @ '')<br/>''))
              \<and> formatter example_host duplicate_metrics
                    (ParamArray [\<lparr>seriesName = ''cpu'', marker = ''o'', dataIndex = i\<rparr>]) =
                   Inr (dateTimeString example_host (timestamp (hd duplicate_series)) @ ''<br/>''
                          @ ''o'' @ '' '' @ ''cpu'' @ '': ''
                          @ numberString example_host (val (hd dups)) @ '' (''
                          @ status (hd dups) @ '')<br/>''))"
proof -
  have h1: "Map_get duplicate_metrics ''cpu'' = Some duplicate_series"
    by (simp add: duplicate_metrics_def)
  have h2: "hd duplicate_series \<in> set duplicate_series"
    by (simp add: duplicate_series_def)
  have h3: "filter (\<lambda>s. timestamp s = timestamp (hd duplicate_series)) duplicate_series
       = [\<lparr>timestamp = 1000, val = Num 10, status = ''GOOD''\<rparr>,
          \<lparr>timestamp = 1000, val = Num 20, status = ''ERROR''\<rparr>]"
    by (simp add: duplicate_series_def)
  show ?thesis
    by (intro conjI chartData_duplicate h1 h2 h3 build_series_duplicate formatter_duplicate
        duplicate_timestamps [OF h1 h2, of example_host "''o''"])
qed

end
